theory Spec2Isabelle
  imports Complex_Main "HOL-Library.List_Lexorder" "HOL-Library.Char_ord"
    "HOL-Library.Sublist" "HOL-Library.Monad_Syntax"
begin

unbundle bit_operations_syntax

section \<open>Python values and errors\<close>

text \<open>
  The script \<open>AssosiationRules.py\<close> is a single batch run over a spreadsheet. Python
  strings are modelled as \<open>string\<close>, one \<open>char\<close> per code point (code points below
  256); exceptions are values of \<open>py_error\<close>.
\<close>

datatype py_error = ValueError | KeyError | ZeroDivisionError

text \<open>A byte is a natural number below 256.\<close>

type_synonym byte = nat

section \<open>The input table\<close>

text \<open>
  \<open>df = pd.read_excel(...)\<close>: an ordered table whose first three columns are the
  transaction id, the item name and the order number (Bestellnummer). A cell is text or
  missing (\<open>NaN\<close>). The check \<open>df.shape[1] < 3\<close> is on the number of columns; a row of
  the model always has the three fields.
\<close>

datatype cell = NaN | Text string

record 'k raw_row =
  row_id :: "'k option"
  row_item :: cell
  row_code :: cell

text \<open>\<open>pd.notna\<close> and \<open>str\<close> on a cell.\<close>

fun notna :: "cell \<Rightarrow> bool" where
  "notna NaN = False"
| "notna (Text s) = True"

fun str_cell :: "cell \<Rightarrow> string" where
  "str_cell NaN = ''nan''"
| "str_cell (Text s) = s"

section \<open>Step 2: the map from item to order number\<close>

text \<open>\<open>DataFrame.drop_duplicates()\<close> keeps the first occurrence of every row.\<close>

fun drop_duplicates :: "'a list \<Rightarrow> 'a list" where
  "drop_duplicates [] = []"
| "drop_duplicates (x # xs) = x # drop_duplicates (filter (\<lambda>y. y \<noteq> x) xs)"

text \<open>\<open>dict(zip(keys, values))\<close>: the pairs are stored in order, a later pair overwrites
  an earlier one with the same key. Only text keys are ever looked up; the model keeps
  a single entry for the missing key.\<close>

definition dict_of :: "('a \<times> 'b) list \<Rightarrow> ('a \<rightharpoonup> 'b)" where
  "dict_of kvs = fold (\<lambda>(k, v) m. m(k \<mapsto> v)) kvs Map.empty"

definition unique_items :: "'k raw_row list \<Rightarrow> (cell \<times> cell) list" where
  "unique_items df = drop_duplicates (map (\<lambda>r. (row_item r, row_code r)) df)"

definition item_bestell_map :: "'k raw_row list \<Rightarrow> (cell \<rightharpoonup> cell)" where
  "item_bestell_map df = dict_of (unique_items df)"

section \<open>Step 3: transactions\<close>

text \<open>\<open>str.strip()\<close>: the white space of \<open>str.isspace\<close> among the code points below 256.\<close>

definition is_space :: "char \<Rightarrow> bool" where
  "is_space c =
     (let n = (of_char c :: nat)
      in (9 \<le> n \<and> n \<le> 13) \<or> (28 \<le> n \<and> n \<le> 32) \<or> n = 133 \<or> n = 160)"

definition strip :: "string \<Rightarrow> string" where
  "strip s = rev (dropWhile is_space (rev (dropWhile is_space s)))"

text \<open>The function applied to every group:
  \<open>[str(item).strip() for item in x if pd.notna(item)]\<close>.\<close>

definition clean_items :: "cell list \<Rightarrow> string list" where
  "clean_items x = map (\<lambda>item. strip (str_cell item)) (filter notna x)"

text \<open>\<open>df.groupby(id_column)\<close>: one group per distinct id, in ascending order of the id;
  rows whose id is missing belong to no group; inside a group the rows keep their order.\<close>

definition group_keys :: "('k::linorder) raw_row list \<Rightarrow> 'k list" where
  "group_keys df = sorted_list_of_set (set (List.map_filter row_id df))"

definition group_items :: "'k raw_row list \<Rightarrow> 'k \<Rightarrow> cell list" where
  "group_items df k = map row_item (filter (\<lambda>r. row_id r = Some k) df)"

definition grouped :: "('k::linorder) raw_row list \<Rightarrow> ('k \<times> string list) list" where
  "grouped df = map (\<lambda>k. (k, clean_items (group_items df k))) (group_keys df)"

definition transactions :: "('k::linorder) raw_row list \<Rightarrow> py_error + string list list" where
  "transactions df =
     (let ts = map snd (grouped df) in if ts = [] then Inl ValueError else Inr ts)"

section \<open>Step 4: the transaction encoder\<close>

text \<open>\<open>TransactionEncoder.fit\<close> collects the sorted distinct items as columns,
  \<open>transform\<close> gives one boolean row per transaction.\<close>

record 'a dataframe =
  df_columns :: "'a list"
  df_rows :: "bool list list"

definition te_columns :: "('a::linorder) list list \<Rightarrow> 'a list" where
  "te_columns ts = sorted_list_of_set (set (concat ts))"

definition te_transform :: "'a list \<Rightarrow> 'a list list \<Rightarrow> bool list list" where
  "te_transform cols ts = map (\<lambda>t. map (\<lambda>c. c \<in> set t) cols) ts"

definition df_transformed :: "('a::linorder) list list \<Rightarrow> 'a dataframe" where
  "df_transformed ts =
     \<lparr>df_columns = te_columns ts, df_rows = te_transform (te_columns ts) ts\<rparr>"

text \<open>Selecting a column of a row by its label; \<open>None\<close> where the frame has no such column.\<close>

definition col_value :: "'a dataframe \<Rightarrow> bool list \<Rightarrow> 'a \<Rightarrow> bool option" where
  "col_value d row c = map_of (zip (df_columns d) row) c"

text \<open>\<open>d[list(items)].all(axis=1)\<close> for one row.\<close>

definition all_true :: "'a dataframe \<Rightarrow> 'a list \<Rightarrow> bool list \<Rightarrow> bool" where
  "all_true d items row = (\<forall>c \<in> set items. col_value d row c = Some True)"

section \<open>Step 5: frequent itemsets and rules\<close>

text \<open>
  Supports and the other metrics are floating-point numbers in the script; the model
  computes them as exact rationals. A \<open>frozenset\<close> of items is a list of its elements.
\<close>

definition support_count :: "'a dataframe \<Rightarrow> 'a list \<Rightarrow> nat" where
  "support_count d items = length (filter (all_true d items) (df_rows d))"

definition support_of :: "'a dataframe \<Rightarrow> 'a list \<Rightarrow> rat" where
  "support_of d items = of_nat (support_count d items) / of_nat (length (df_rows d))"

text \<open>
  Modelled from the spec: \<open>apriori\<close>, the frequent itemset miner. The script imports it
  from the library \<open>mlxtend\<close>, whose code is not part of the repository; the definitions
  below follow section 4.3 of the specification. Level 1 holds the single items that
  meet the threshold. A level is joined with itself (two itemsets that agree on all but
  their last item give a candidate one item longer), candidates with an infrequent
  subset one item shorter are pruned, and the candidates that meet the threshold make the
  next level. The search ends at the first empty level.
\<close>

definition frequent :: "'a dataframe \<Rightarrow> rat \<Rightarrow> 'a list \<Rightarrow> bool" where
  "frequent d min_support items = (min_support \<le> support_of d items)"

definition level_one :: "'a dataframe \<Rightarrow> rat \<Rightarrow> 'a list list" where
  "level_one d min_support = filter (frequent d min_support) (map (\<lambda>c. [c]) (df_columns d))"

definition joinable :: "('a::linorder) list \<Rightarrow> 'a list \<Rightarrow> bool" where
  "joinable a b = (a \<noteq> [] \<and> b \<noteq> [] \<and> butlast a = butlast b \<and> last a < last b)"

definition join_step :: "('a::linorder) list list \<Rightarrow> 'a list list" where
  "join_step L = concat (map (\<lambda>a. map (\<lambda>b. a @ [last b]) (filter (joinable a) L)) L)"

definition k_subsets :: "'a list \<Rightarrow> 'a list list" where
  "k_subsets c = map (\<lambda>i. take i c @ drop (Suc i) c) [0..<length c]"

definition prune_step :: "'a list list \<Rightarrow> 'a list list \<Rightarrow> 'a list list" where
  "prune_step L C = filter (\<lambda>c. \<forall>s \<in> set (k_subsets c). s \<in> set L) C"

definition next_level :: "('a::linorder) dataframe \<Rightarrow> rat \<Rightarrow> 'a list list \<Rightarrow> 'a list list" where
  "next_level d min_support L = filter (frequent d min_support) (prune_step L (join_step L))"

partial_function (option) apriori_levels ::
  "('a::linorder) dataframe \<Rightarrow> rat \<Rightarrow> 'a list list \<Rightarrow> 'a list list option" where
  "apriori_levels d min_support L =
     (if L = [] then Some []
      else do {
        rest \<leftarrow> apriori_levels d min_support (next_level d min_support L);
        Some (L @ rest)
      })"

declare apriori_levels.simps [code]

definition apriori :: "('a::linorder) dataframe \<Rightarrow> rat \<Rightarrow> ('a list \<times> rat) list option" where
  "apriori d min_support =
     map_option (map (\<lambda>items. (items, support_of d items)))
       (apriori_levels d min_support (level_one d min_support))"

text \<open>
  Modelled from the spec: \<open>association_rules\<close>, the rule generator, also imported from
  \<open>mlxtend\<close>; the definitions follow section 4.4 of the specification. Every frequent
  itemset of two or more items is split in every way into a non-empty antecedent and a
  non-empty consequent; the supports of both are read from the table of frequent
  itemsets (\<open>KeyError\<close> where the table lacks one); the rules whose confidence meets the
  threshold are retained.
\<close>

datatype ext_rat = Fin rat | PInf

text \<open>A row of the rule table. Besides the six metrics of the specification the table
  of the library carries the supports of antecedent and consequent, in the columns
  \<open>antecedent support\<close> and \<open>consequent support\<close>.\<close>

record 'i rule =
  antecedents :: 'i
  consequents :: 'i
  antecedent_support :: rat
  consequent_support :: rat
  support :: rat
  confidence :: rat
  lift :: rat
  leverage :: rat
  conviction :: ext_rat
  zhangs_metric :: rat

definition zhang :: "rat \<Rightarrow> rat \<Rightarrow> rat \<Rightarrow> rat \<Rightarrow> rat" where
  "zhang sAC sA sC conf =
     (let den = max (sA * (1 - sC)) (sC * (sA - sAC))
      in if den = 0 then 0 else max (- 1) (min 1 ((conf - sC) / den)))"

definition mk_rule :: "'a list \<Rightarrow> 'a list \<Rightarrow> rat \<Rightarrow> rat \<Rightarrow> rat \<Rightarrow> 'a list rule" where
  "mk_rule A C sAC sA sC =
     (let conf = sAC / sA
      in \<lparr>antecedents = A, consequents = C, antecedent_support = sA,
          consequent_support = sC, support = sAC, confidence = conf,
          lift = conf / sC, leverage = sAC - sA * sC,
          conviction = (if conf = 1 then PInf else Fin ((1 - sC) / (1 - conf))),
          zhangs_metric = zhang sAC sA sC conf\<rparr>)"

definition proper_subsets :: "'a list \<Rightarrow> 'a list list" where
  "proper_subsets items = filter (\<lambda>A. A \<noteq> [] \<and> A \<noteq> items) (subseqs items)"

definition rule_of ::
  "('a list \<times> rat) list \<Rightarrow> 'a list \<Rightarrow> rat \<Rightarrow> 'a list \<Rightarrow> py_error + 'a list rule" where
  "rule_of fi items sAC A =
     (let C = filter (\<lambda>x. x \<notin> set A) items
      in case map_of fi A of
           None \<Rightarrow> Inl KeyError
         | Some sA \<Rightarrow>
             (case map_of fi C of
                None \<Rightarrow> Inl KeyError
              | Some sC \<Rightarrow> Inr (mk_rule A C sAC sA sC)))"

fun sequence :: "('e + 'a) list \<Rightarrow> 'e + 'a list" where
  "sequence [] = Inr []"
| "sequence (x # xs) =
     (case x of
        Inl e \<Rightarrow> Inl e
      | Inr v \<Rightarrow> (case sequence xs of Inl e \<Rightarrow> Inl e | Inr vs \<Rightarrow> Inr (v # vs)))"

definition candidate_rules :: "('a list \<times> rat) list \<Rightarrow> (py_error + 'a list rule) list" where
  "candidate_rules fi =
     concat (map (\<lambda>(items, sAC).
        if 2 \<le> length items then map (rule_of fi items sAC) (proper_subsets items) else []) fi)"

definition association_rules ::
  "('a list \<times> rat) list \<Rightarrow> rat \<Rightarrow> py_error + 'a list rule list" where
  "association_rules fi min_threshold =
     (case sequence (candidate_rules fi) of
        Inl e \<Rightarrow> Inl e
      | Inr rs \<Rightarrow> Inr (filter (\<lambda>r. min_threshold \<le> confidence r) rs))"

text \<open>The thresholds of the script.\<close>

definition min_support :: rat where
  "min_support = 1 / 1000"

definition min_confidence :: rat where
  "min_confidence = 15 / 100"

section \<open>Step 6: the number of transactions that hold a rule\<close>

text \<open>The rows of \<open>df_transformed\<close> in which all columns of the antecedent and all
  columns of the consequent are true; \<open>KeyError\<close> where an item is not a column.\<close>

definition combination_count_of :: "'a dataframe \<Rightarrow> 'a list \<Rightarrow> 'a list \<Rightarrow> py_error + nat" where
  "combination_count_of d A C =
     (if set A \<union> set C \<subseteq> set (df_columns d)
      then Inr (length (filter (\<lambda>row. all_true d A row \<and> all_true d C row) (df_rows d)))
      else Inl KeyError)"

section \<open>Step 7: the combination of order numbers\<close>

text \<open>\<open>a.union(b)\<close> of two frozensets as a list without repetition, and \<open>sep.join\<close>.\<close>

definition frozenset_union :: "'a list \<Rightarrow> 'a list \<Rightarrow> 'a list" where
  "frozenset_union A C = remdups (A @ C)"

fun join :: "string \<Rightarrow> string list \<Rightarrow> string" where
  "join sep [] = []"
| "join sep [x] = x"
| "join sep (x # y # ys) = x @ sep @ join sep (y # ys)"

text \<open>The loop of \<open>get_mat_combination\<close>: the order number of every item that is a key
  of the map is appended, as a string.\<close>

fun bestellnummern :: "(cell \<rightharpoonup> cell) \<Rightarrow> string list \<Rightarrow> string list" where
  "bestellnummern m [] = []"
| "bestellnummern m (item # items) =
     (case m (Text item) of
        None \<Rightarrow> bestellnummern m items
      | Some code \<Rightarrow> str_cell code # bestellnummern m items)"

definition get_mat_combination :: "(cell \<rightharpoonup> cell) \<Rightarrow> string list \<Rightarrow> string list \<Rightarrow> string" where
  "get_mat_combination m A C =
     (let items_in_rule = frozenset_union A C
      in join ''-'' (sorted_list_of_set (set (bestellnummern m items_in_rule))))"

section \<open>Step 8: the 8-digit identifier\<close>

text \<open>\<open>str.encode("utf-8")\<close> on code points below 256: one byte below 128, two bytes above.\<close>

definition utf8_char :: "char \<Rightarrow> byte list" where
  "utf8_char c =
     (let n = (of_char c :: nat)
      in if n < 128 then [n] else [192 + n div 64, 128 + n mod 64])"

definition utf8_encode :: "string \<Rightarrow> byte list" where
  "utf8_encode s = concat (map utf8_char s)"

subsection \<open>The hash function\<close>

text \<open>
  \<open>hashlib.sha256\<close> is the hash function SHA-256 of the standard FIPS 180-4. It is
  written out on natural numbers: a word is a number below \<open>2 ^ 32\<close>, and the addition
  of words wraps around. The round constants \<open>K256\<close> (section 4.2.2 of the standard) and
  the initial hash value \<open>H256\<close> (section 5.3.3) are given in decimal.
\<close>

definition K256 :: "nat list" where
  "K256 =
   [1116352408, 1899447441, 3049323471, 3921009573, 961987163, 1508970993,
    2453635748, 2870763221, 3624381080, 310598401, 607225278, 1426881987,
    1925078388, 2162078206, 2614888103, 3248222580, 3835390401, 4022224774,
    264347078, 604807628, 770255983, 1249150122, 1555081692, 1996064986,
    2554220882, 2821834349, 2952996808, 3210313671, 3336571891, 3584528711,
    113926993, 338241895, 666307205, 773529912, 1294757372, 1396182291,
    1695183700, 1986661051, 2177026350, 2456956037, 2730485921, 2820302411,
    3259730800, 3345764771, 3516065817, 3600352804, 4094571909, 275423344,
    430227734, 506948616, 659060556, 883997877, 958139571, 1322822218,
    1537002063, 1747873779, 1955562222, 2024104815, 2227730452, 2361852424,
    2428436474, 2756734187, 3204031479, 3329325298]"

definition H256 :: "nat list" where
  "H256 = [1779033703, 3144134277, 1013904242, 2773480762,
           1359893119, 2600822924, 528734635, 1541459225]"

definition add32 :: "nat \<Rightarrow> nat \<Rightarrow> nat" where
  "add32 x y = (x + y) mod 2 ^ 32"

definition rotr :: "nat \<Rightarrow> nat \<Rightarrow> nat" where
  "rotr n x = x div 2 ^ n + (x mod 2 ^ n) * 2 ^ (32 - n)"

definition shr :: "nat \<Rightarrow> nat \<Rightarrow> nat" where
  "shr n x = x div 2 ^ n"

definition not32 :: "nat \<Rightarrow> nat" where
  "not32 x = 2 ^ 32 - 1 - x"

definition ssig0 :: "nat \<Rightarrow> nat" where
  "ssig0 x = rotr 7 x XOR rotr 18 x XOR shr 3 x"

definition ssig1 :: "nat \<Rightarrow> nat" where
  "ssig1 x = rotr 17 x XOR rotr 19 x XOR shr 10 x"

definition bsig0 :: "nat \<Rightarrow> nat" where
  "bsig0 x = rotr 2 x XOR rotr 13 x XOR rotr 22 x"

definition bsig1 :: "nat \<Rightarrow> nat" where
  "bsig1 x = rotr 6 x XOR rotr 11 x XOR rotr 25 x"

definition sha_ch :: "nat \<Rightarrow> nat \<Rightarrow> nat \<Rightarrow> nat" where
  "sha_ch x y z = (x AND y) XOR (not32 x AND z)"

definition sha_maj :: "nat \<Rightarrow> nat \<Rightarrow> nat \<Rightarrow> nat" where
  "sha_maj x y z = (x AND y) XOR (x AND z) XOR (y AND z)"

text \<open>Padding: the byte \<open>0x80\<close>, zero bytes up to 56 modulo 64, and the length of the
  message in bits as 8 bytes, most significant first.\<close>

definition be_bytes :: "nat \<Rightarrow> nat \<Rightarrow> byte list" where
  "be_bytes k n = map (\<lambda>i. n div 256 ^ (k - 1 - i) mod 256) [0..<k]"

definition sha_pad :: "byte list \<Rightarrow> byte list" where
  "sha_pad m =
     m @ [0x80] @ replicate ((119 - length m mod 64) mod 64) 0 @ be_bytes 8 (8 * length m)"

text \<open>The padded message as words of four bytes, and as blocks of sixteen words.\<close>

fun words_of :: "byte list \<Rightarrow> nat list" where
  "words_of (a # b # c # d # bs) = (((a * 256 + b) * 256 + c) * 256 + d) # words_of bs"
| "words_of _ = []"

fun blocks_of :: "nat list \<Rightarrow> nat list list" where
  "blocks_of [] = []"
| "blocks_of (w # ws) = take 16 (w # ws) # blocks_of (drop 16 (w # ws))"

text \<open>The message schedule; the list holds the words so far, the latest first.\<close>

fun schedule :: "nat \<Rightarrow> nat list \<Rightarrow> nat list" where
  "schedule 0 w = w"
| "schedule (Suc n) w =
     schedule n (add32 (add32 (add32 (ssig1 (w ! 1)) (w ! 6)) (ssig0 (w ! 14))) (w ! 15) # w)"

text \<open>One round on the eight working variables, and the compression of a block.\<close>

fun sha_round :: "nat list \<Rightarrow> nat \<times> nat \<Rightarrow> nat list" where
  "sha_round [a, b, c, d, e, f, g, h] (k, w) =
     (let t1 = add32 (add32 (add32 (add32 h (bsig1 e)) (sha_ch e f g)) k) w;
          t2 = add32 (bsig0 a) (sha_maj a b c)
      in [add32 t1 t2, a, b, c, add32 d t1, e, f, g])"
| "sha_round s _ = s"

definition compress :: "nat list \<Rightarrow> nat list \<Rightarrow> nat list" where
  "compress hs block =
     map2 add32 hs (foldl sha_round hs (zip K256 (rev (schedule 48 (rev block)))))"

text \<open>The digest, read as one number of 256 bits, most significant word first.\<close>

definition sha256 :: "byte list \<Rightarrow> nat" where
  "sha256 m =
     foldl (\<lambda>acc w. acc * 2 ^ 32 + w) 0
       (foldl compress H256 (blocks_of (words_of (sha_pad m))))"

subsection \<open>From the digest to the identifier\<close>

text \<open>\<open>hexdigest()\<close>: the 32 bytes of the digest as 64 lower-case hexadecimal digits,
  most significant first.\<close>

definition hex_char :: "nat \<Rightarrow> char" where
  "hex_char d = (if d < 10 then char_of (48 + d) else char_of (87 + d))"

fun to_hex :: "nat \<Rightarrow> nat \<Rightarrow> string" where
  "to_hex 0 n = []"
| "to_hex (Suc k) n = to_hex k (n div 16) @ [hex_char (n mod 16)]"

definition hexdigest :: "nat \<Rightarrow> string" where
  "hexdigest digest = to_hex 64 digest"

text \<open>\<open>int(s, 16)\<close> on a string of hexadecimal digits; \<open>ValueError\<close> on anything else
  and on the empty string.\<close>

definition hex_val :: "char \<Rightarrow> nat option" where
  "hex_val c =
     (let n = (of_char c :: nat)
      in if 48 \<le> n \<and> n \<le> 57 then Some (n - 48)
         else if 97 \<le> n \<and> n \<le> 102 then Some (n - 87)
         else if 65 \<le> n \<and> n \<le> 70 then Some (n - 55)
         else None)"

fun int16_acc :: "nat \<Rightarrow> string \<Rightarrow> nat option" where
  "int16_acc acc [] = Some acc"
| "int16_acc acc (c # cs) =
     (case hex_val c of None \<Rightarrow> None | Some d \<Rightarrow> int16_acc (16 * acc + d) cs)"

definition int16 :: "string \<Rightarrow> py_error + nat" where
  "int16 s = (if s = [] then Inl ValueError
              else case int16_acc 0 s of None \<Rightarrow> Inl ValueError | Some n \<Rightarrow> Inr n)"

text \<open>\<open>str(n)\<close> for a non-negative integer, and \<open>str.zfill\<close> on a string without sign.\<close>

definition digit_char :: "nat \<Rightarrow> char" where
  "digit_char d = char_of (48 + d)"

fun str_nat :: "nat \<Rightarrow> string" where
  "str_nat n = (if n < 10 then [digit_char n] else str_nat (n div 10) @ [digit_char (n mod 10)])"

declare str_nat.simps [simp del]

definition zfill :: "nat \<Rightarrow> string \<Rightarrow> string" where
  "zfill w s = replicate (w - length s) (CHR ''0'') @ s"

text \<open>\<open>re.sub(r'^(0+)', lambda m: '9' * len(m.group(1)), s)\<close>: the pattern is anchored at
  the start, so only the leading run of zeros is replaced.\<close>

definition leading_zeros :: "string \<Rightarrow> nat" where
  "leading_zeros s = length (takeWhile (\<lambda>c. c = CHR ''0'') s)"

definition sub_leading_zeros :: "string \<Rightarrow> string" where
  "sub_leading_zeros s = replicate (leading_zeros s) (CHR ''9'') @ drop (leading_zeros s) s"

text \<open>\<open>create_unique_8digit_id\<close>, step by step as in the script.\<close>

definition mod_value :: "nat \<Rightarrow> nat" where
  "mod_value hash_int = hash_int mod 10 ^ 8"

definition mod_str :: "nat \<Rightarrow> string" where
  "mod_str hash_int = zfill 8 (str_nat (mod_value hash_int))"

definition create_unique_8digit_id :: "string \<Rightarrow> py_error + string" where
  "create_unique_8digit_id combination_string =
     (let sha_value = hexdigest (sha256 (utf8_encode combination_string))
      in case int16 sha_value of
           Inl e \<Rightarrow> Inl e
         | Inr hash_int \<Rightarrow> Inr (sub_leading_zeros (mod_str hash_int)))"

definition is_digit :: "char \<Rightarrow> bool" where
  "is_digit c = (48 \<le> (of_char c :: nat) \<and> (of_char c :: nat) \<le> 57)"


section \<open>Steps 9 and 10: the annotated rule table\<close>

text \<open>The columns added to the rule table. The items of a rule are frozensets until
  step 10 and rendered strings afterwards, so the type of the two item columns is a
  parameter of the row.\<close>

record 'i annotated_rule = "'i rule" +
  combination_count :: nat
  Mat_combination :: string
  Mat_combination_id :: string
  different_items :: nat

text \<open>\<open>', '.join(sorted(list(x)))\<close>\<close>

definition render :: "string list \<Rightarrow> string" where
  "render x = join '', '' (sorted_list_of_set (set x))"

definition annotate ::
  "string dataframe \<Rightarrow> (cell \<rightharpoonup> cell) \<Rightarrow> string list rule
     \<Rightarrow> py_error + string annotated_rule" where
  "annotate d m r =
     (case combination_count_of d (antecedents r) (consequents r) of
        Inl e \<Rightarrow> Inl e
      | Inr n \<Rightarrow>
          (let mat = get_mat_combination m (antecedents r) (consequents r)
           in case create_unique_8digit_id mat of
                Inl e \<Rightarrow> Inl e
              | Inr ident \<Rightarrow>
                  Inr \<lparr>antecedents = render (antecedents r),
                       consequents = render (consequents r),
                       antecedent_support = antecedent_support r,
                       consequent_support = consequent_support r,
                       support = support r, confidence = confidence r, lift = lift r,
                       leverage = leverage r, conviction = conviction r,
                       zhangs_metric = zhangs_metric r,
                       combination_count = n, Mat_combination = mat,
                       Mat_combination_id = ident,
                       different_items =
                         length (frozenset_union (antecedents r) (consequents r))\<rparr>))"

text \<open>Steps 6 to 10 on the whole rule table. On a table without rows
  \<open>rules.apply(..., axis=1)\<close> gives a frame instead of a column, and the assignment to
  \<open>rules['combination_count']\<close> raises \<open>ValueError\<close>.\<close>

definition annotate_all ::
  "string dataframe \<Rightarrow> (cell \<rightharpoonup> cell) \<Rightarrow> string list rule list
     \<Rightarrow> py_error + string annotated_rule list" where
  "annotate_all d m rs =
     (if rs = [] then Inl ValueError else sequence (map (annotate d m) rs))"

section \<open>Step 11: the exported table\<close>

text \<open>A row of the rule table as labelled values, in the order in which the columns
  were created: the ten columns of the generator, then the four columns the script adds.
  The selection \<open>rules[[...]]\<close> of a list of labels keeps the columns of these labels, in
  the order of the list (\<open>KeyError\<close> for a label that is not a column).\<close>

datatype val = Str string | Num rat | Ext ext_rat | Cnt nat

definition rule_cells :: "string annotated_rule \<Rightarrow> (string \<times> val) list" where
  "rule_cells r =
     [(''antecedents'', Str (antecedents r)),
      (''consequents'', Str (consequents r)),
      (''antecedent support'', Num (antecedent_support r)),
      (''consequent support'', Num (consequent_support r)),
      (''support'', Num (support r)),
      (''confidence'', Num (confidence r)),
      (''lift'', Num (lift r)),
      (''leverage'', Num (leverage r)),
      (''conviction'', Ext (conviction r)),
      (''zhangs_metric'', Num (zhangs_metric r)),
      (''combination_count'', Cnt (combination_count r)),
      (''Mat_combination'', Str (Mat_combination r)),
      (''Mat_combination_id'', Str (Mat_combination_id r)),
      (''different items'', Cnt (different_items r))]"

definition select_columns :: "string list \<Rightarrow> (string \<times> val) list \<Rightarrow> py_error + (string \<times> val) list" where
  "select_columns labels row =
     sequence (map (\<lambda>l. case map_of row l of None \<Rightarrow> Inl KeyError | Some v \<Rightarrow> Inr (l, v)) labels)"

definition export_labels :: "string list" where
  "export_labels =
     [''antecedents'', ''consequents'', ''support'', ''confidence'', ''lift'', ''leverage'',
      ''conviction'', ''zhangs_metric'', ''combination_count'', ''Mat_combination'',
      ''Mat_combination_id'', ''different items'']"

definition rules_export :: "string annotated_rule list \<Rightarrow> py_error + (string \<times> val) list list" where
  "rules_export rules = sequence (map (\<lambda>r. select_columns export_labels (rule_cells r)) rules)"

section \<open>Step 12: the graph and the node sizes\<close>

text \<open>\<open>G.add_edge(antecedents, consequents, ...)\<close> for every rule in turn: the nodes of
  the graph in the order in which they were first added.\<close>

definition graph_nodes :: "string annotated_rule list \<Rightarrow> string list" where
  "graph_nodes rules = drop_duplicates (concat (map (\<lambda>row. [antecedents row, consequents row]) rules))"

text \<open>The test \<open>node in row['antecedents']\<close> is between two strings: it holds when the
  first is a contiguous part of the second.\<close>

definition total_count :: "string annotated_rule list \<Rightarrow> string \<Rightarrow> int" where
  "total_count rules node =
     sum_list (map (\<lambda>row. if sublist node (antecedents row) \<or> sublist node (consequents row)
                           then int (combination_count row) else 0) rules)"

definition node_sizes :: "string annotated_rule list \<Rightarrow> (string \<times> int) list" where
  "node_sizes rules = map (\<lambda>node. (node, total_count rules node)) (graph_nodes rules)"

text \<open>The normalisation of the sizes. \<open>/\<close> of Python raises on a zero divisor.\<close>

definition truediv :: "rat \<Rightarrow> rat \<Rightarrow> py_error + rat" where
  "truediv a b = (if b = 0 then Inl ZeroDivisionError else Inr (a / b))"

fun list_min :: "int list \<Rightarrow> int" where
  "list_min [] = 0"
| "list_min (x # xs) = fold min xs x"

fun list_max :: "int list \<Rightarrow> int" where
  "list_max [] = 0"
| "list_max (x # xs) = fold max xs x"

definition scale_node :: "rat \<Rightarrow> rat \<Rightarrow> int \<Rightarrow> int \<Rightarrow> string \<times> int \<Rightarrow> py_error + string \<times> rat" where
  "scale_node min_size max_size min_count max_count ns =
     (case truediv (of_int (snd ns - min_count)) (of_int (max_count - min_count)) of
        Inl e \<Rightarrow> Inl e
      | Inr q \<Rightarrow> Inr (fst ns, min_size + q * (max_size - min_size)))"

definition scale_sizes :: "rat \<Rightarrow> rat \<Rightarrow> (string \<times> int) list \<Rightarrow> py_error + (string \<times> rat) list" where
  "scale_sizes min_size max_size sizes =
     (let counts = map snd sizes
      in if counts \<noteq> [] then
           (let min_count = list_min counts; max_count = list_max counts
            in if max_count = min_count
               then Inr (map (\<lambda>ns. (fst ns, (min_size + max_size) / 2)) sizes)
               else sequence (map (scale_node min_size max_size min_count max_count) sizes))
         else Inr (map (\<lambda>ns. (fst ns, min_size)) sizes))"

definition scaled_sizes :: "(string \<times> int) list \<Rightarrow> py_error + (string \<times> rat) list" where
  "scaled_sizes sizes = scale_sizes 300 3000 sizes"

section \<open>Auxiliary notions for the statements\<close>

text \<open>The order numbers with which an item occurs in the input, in input order.\<close>

definition codes_of :: "'k raw_row list \<Rightarrow> cell \<Rightarrow> cell list" where
  "codes_of df item = map row_code (filter (\<lambda>r. row_item r = item) df)"

text \<open>A small input: item \<open>A\<close> occurs with two order numbers.\<close>

definition example_rows :: "nat raw_row list" where
  "example_rows =
     [\<lparr>row_id = Some 1, row_item = Text ''A'', row_code = Text ''M1''\<rparr>,
      \<lparr>row_id = Some 1, row_item = Text ''B'', row_code = Text ''M7''\<rparr>,
      \<lparr>row_id = Some 2, row_item = Text ''A'', row_code = Text ''M2''\<rparr>,
      \<lparr>row_id = Some 3, row_item = Text ''A'', row_code = Text ''M1''\<rparr>]"

text \<open>An input whose first transaction id has no item at all; the other two ids hold
  the items \<open>A\<close> and \<open>B\<close>.\<close>

definition example_missing :: "nat raw_row list" where
  "example_missing =
     [\<lparr>row_id = Some 1, row_item = NaN, row_code = Text ''M1''\<rparr>,
      \<lparr>row_id = Some 2, row_item = Text '' A '', row_code = Text ''M2''\<rparr>,
      \<lparr>row_id = Some 2, row_item = Text ''B'', row_code = Text ''M7''\<rparr>,
      \<lparr>row_id = Some 3, row_item = Text ''A'', row_code = Text ''M2''\<rparr>,
      \<lparr>row_id = Some 3, row_item = Text ''B'', row_code = Text ''M7''\<rparr>]"

text \<open>The order numbers of the items of a set that are keys of the map, as strings.\<close>

definition mapped_codes :: "(cell \<rightharpoonup> cell) \<Rightarrow> string set \<Rightarrow> string set" where
  "mapped_codes m items = {str_cell code | item code. item \<in> items \<and> m (Text item) = Some code}"

text \<open>The combination as the specification words it: look every item up, skip the
  items that are no key, sort the order numbers, remove repetitions, join with a dash.\<close>

definition mat_combination_spec :: "(cell \<rightharpoonup> cell) \<Rightarrow> string list \<Rightarrow> string list \<Rightarrow> string" where
  "mat_combination_spec m A C =
     join ''-'' (remdups (sort (List.map_filter (\<lambda>item. map_option str_cell (m (Text item))) (A @ C))))"

text \<open>The labels of the exported columns as the specification lists them.\<close>

definition spec_labels :: "string list" where
  "spec_labels =
     [''antecedents'', ''consequents'', ''support'', ''confidence'', ''lift'', ''leverage'',
      ''conviction'', ''zhangs_metric'', ''combination_count'', ''Mat_combination'',
      ''Mat_combination_id'', ''different_items'']"

text \<open>The row of the exported table that belongs to a row of the rule table: the twelve
  selected columns, in the order of the selection.\<close>

definition export_row :: "string annotated_rule \<Rightarrow> (string \<times> val) list" where
  "export_row r =
     [(''antecedents'', Str (antecedents r)),
      (''consequents'', Str (consequents r)),
      (''support'', Num (support r)),
      (''confidence'', Num (confidence r)),
      (''lift'', Num (lift r)),
      (''leverage'', Num (leverage r)),
      (''conviction'', Ext (conviction r)),
      (''zhangs_metric'', Num (zhangs_metric r)),
      (''combination_count'', Cnt (combination_count r)),
      (''Mat_combination'', Str (Mat_combination r)),
      (''Mat_combination_id'', Str (Mat_combination_id r)),
      (''different items'', Cnt (different_items r))]"

text \<open>A row of the annotated rule table with given labels and count.\<close>

definition example_rule :: "string \<Rightarrow> string \<Rightarrow> nat \<Rightarrow> string annotated_rule" where
  "example_rule a c n =
     \<lparr>antecedents = a, consequents = c, antecedent_support = 1, consequent_support = 1 / 2,
      support = 1 / 2, confidence = 1 / 2, lift = 1,
      leverage = 0, conviction = Fin 1, zhangs_metric = 0, combination_count = n,
      Mat_combination = ''M2-M7'', Mat_combination_id = ''49323266'', different_items = 2\<rparr>"

text \<open>The encoded frame of the two transactions \<open>A, B\<close> and \<open>A\<close>.\<close>

definition example_frame :: "string dataframe" where
  "example_frame = df_transformed [[''A'', ''B''], [''A'']]"

text \<open>The aggregate of a label as the specification words it: the counts of the rules
  whose antecedent string or consequent string is that label.\<close>

definition label_sum :: "string annotated_rule list \<Rightarrow> string \<Rightarrow> int" where
  "label_sum rules node =
     sum_list (map (\<lambda>row. int (combination_count row))
       (filter (\<lambda>row. antecedents row = node \<or> consequents row = node) rules))"

text \<open>Two rules with the same consequent; the antecedent of the second contains the
  antecedent of the first.\<close>

definition example_rules :: "string annotated_rule list" where
  "example_rules = [example_rule ''A'' ''B'' 2, example_rule ''A, C'' ''B'' 1]"

text \<open>Inputs in which the name of item \<open>A\<close> carries a trailing blank: in the first no row
  has the bare name, in the second a later row has it.\<close>

definition example_untrimmed :: "nat raw_row list" where
  "example_untrimmed =
     [\<lparr>row_id = Some 1, row_item = Text ''A '', row_code = Text ''M1''\<rparr>,
      \<lparr>row_id = Some 1, row_item = Text ''B'', row_code = Text ''M7''\<rparr>]"

definition example_mixed :: "nat raw_row list" where
  "example_mixed =
     [\<lparr>row_id = Some 1, row_item = Text ''A '', row_code = Text ''M1''\<rparr>,
      \<lparr>row_id = Some 1, row_item = Text ''B'', row_code = Text ''M7''\<rparr>,
      \<lparr>row_id = Some 2, row_item = Text ''A'', row_code = Text ''M1''\<rparr>]"

text \<open>The support of a set of items as the specification defines it: the fraction of the
  transactions that contain all items of the set.\<close>

definition true_support :: "'a list list \<Rightarrow> 'a set \<Rightarrow> rat" where
  "true_support T S = of_nat (length (filter (\<lambda>t. S \<subseteq> set t) T)) / of_nat (length T)"

text \<open>The itemsets of \<open>k\<close> items over the columns of a frame that meet the threshold,
  each as the list of its items in ascending order.\<close>

definition freq_lists :: "('a::linorder) dataframe \<Rightarrow> rat \<Rightarrow> nat \<Rightarrow> 'a list set" where
  "freq_lists d ms k =
     {I. sorted_wrt (<) I \<and> set I \<subseteq> set (df_columns d) \<and> length I = k \<and> frequent d ms I}"

text \<open>What a generated rule satisfies: both sides are non-empty and disjoint, and the
  confidence is the quotient of the supports of the whole rule and of its antecedent,
  the latter at least the threshold of the miner.\<close>

definition rule_ok :: "'a list list \<Rightarrow> rat \<Rightarrow> 'a list rule \<Rightarrow> bool" where
  "rule_ok T ms r =
     (antecedents r \<noteq> [] \<and> consequents r \<noteq> []
      \<and> set (antecedents r) \<inter> set (consequents r) = {}
      \<and> ms \<le> true_support T (set (antecedents r))
      \<and> support r = true_support T (set (antecedents r) \<union> set (consequents r))
      \<and> confidence r = true_support T (set (antecedents r) \<union> set (consequents r))
                         / true_support T (set (antecedents r)))"

text \<open>The transactions \<open>{A, B}\<close>, \<open>{A, B}\<close>, \<open>{A, C}\<close>, with the itemsets and rules mined from
  them at the thresholds 3/10 and 15/100.\<close>

definition example_transactions :: "string list list" where
  "example_transactions = [[''A'', ''B''], [''A'', ''B''], [''A'', ''C'']]"

definition example_itemsets :: "(string list \<times> rat) list" where
  "example_itemsets =
     [([''A''], 1), ([''B''], 2 / 3), ([''C''], 1 / 3),
      ([''A'', ''B''], 2 / 3), ([''A'', ''C''], 1 / 3)]"

definition example_mined_rules :: "string list rule list" where
  "example_mined_rules =
     [\<lparr>antecedents = [''A''], consequents = [''B''], antecedent_support = 1,
       consequent_support = 2 / 3, support = 2 / 3, confidence = 2 / 3,
       lift = 1, leverage = 0, conviction = Fin 1, zhangs_metric = 0\<rparr>,
      \<lparr>antecedents = [''B''], consequents = [''A''], antecedent_support = 2 / 3,
       consequent_support = 1, support = 2 / 3, confidence = 1,
       lift = 1, leverage = 0, conviction = PInf, zhangs_metric = 0\<rparr>,
      \<lparr>antecedents = [''A''], consequents = [''C''], antecedent_support = 1,
       consequent_support = 1 / 3, support = 1 / 3, confidence = 1 / 3,
       lift = 1, leverage = 0, conviction = Fin 1, zhangs_metric = 0\<rparr>,
      \<lparr>antecedents = [''C''], consequents = [''A''], antecedent_support = 1 / 3,
       consequent_support = 1, support = 1 / 3, confidence = 1,
       lift = 1, leverage = 0, conviction = PInf, zhangs_metric = 0\<rparr>]"

section \<open>Properties of the 8-digit identifier\<close>

lemma hex_val_hex_char: "d < 16 \<Longrightarrow> hex_val (hex_char d) = Some d"
  by (auto simp: hex_val_def hex_char_def Let_def)

lemma int16_acc_append:
  "int16_acc acc (xs @ ys) = (case int16_acc acc xs of None \<Rightarrow> None | Some a \<Rightarrow> int16_acc a ys)"
  by (induction xs arbitrary: acc) (auto split: option.splits)

lemma int16_acc_to_hex: "int16_acc acc (to_hex k n) = Some (acc * 16 ^ k + n mod 16 ^ k)"
proof (induction k arbitrary: n acc)
  case 0
  then show ?case by simp
next
  case (Suc k)
  have "n mod (16 * 16 ^ k) = 16 * ((n div 16) mod 16 ^ k) + n mod 16"
    by (simp add: mod_mult2_eq add.commute)
  then show ?case
    by (simp add: int16_acc_append Suc hex_val_hex_char algebra_simps)
qed

lemma to_hex_length: "length (to_hex k n) = k"
  by (induction k arbitrary: n) auto

lemma int16_hexdigest: "n < 2 ^ 256 \<Longrightarrow> int16 (hexdigest n) = Inr n"
proof -
  assume "n < 2 ^ 256"
  then have "n < 16 ^ 64" by simp
  then have "n mod 16 ^ 64 = n" by simp
  moreover have "to_hex 64 n \<noteq> []"
    using to_hex_length [of 64 n] by auto
  ultimately show ?thesis
    by (simp add: int16_def hexdigest_def int16_acc_to_hex)
qed

lemma add32_less: "add32 x y < 2 ^ 32"
  by (simp add: add32_def)

lemma sha_round_length: "length s = 8 \<Longrightarrow> length (sha_round s kw) = 8"
proof -
  assume "length s = 8"
  then obtain a b c d e f g h where "s = [a, b, c, d, e, f, g, h]"
    by (auto simp: length_Suc_conv eval_nat_numeral)
  then show ?thesis by (cases kw) (simp add: Let_def)
qed

lemma foldl_sha_round_length: "length s = 8 \<Longrightarrow> length (foldl sha_round s kws) = 8"
  by (induction kws arbitrary: s) (simp_all add: sha_round_length)

lemma compress_length: "length hs = 8 \<Longrightarrow> length (compress hs block) = 8"
  by (simp add: compress_def foldl_sha_round_length)

lemma compress_less: "x \<in> set (compress hs block) \<Longrightarrow> x < 2 ^ 32"
  using add32_less by (auto simp: compress_def elim!: in_set_zipE)

lemma foldl_compress_ok:
  "length hs = 8 \<Longrightarrow> \<forall>x \<in> set hs. x < 2 ^ 32 \<Longrightarrow>
     length (foldl compress hs bs) = 8 \<and> (\<forall>x \<in> set (foldl compress hs bs). x < 2 ^ 32)"
proof (induction bs arbitrary: hs)
  case Nil
  then show ?case by simp
next
  case (Cons b bs)
  have "length (compress hs b) = 8" using Cons.prems(1) by (rule compress_length)
  moreover have "\<forall>x \<in> set (compress hs b). x < 2 ^ 32" using compress_less by blast
  ultimately show ?case using Cons.IH [of "compress hs b"] by simp
qed

lemma digest_number_less:
  "\<forall>w \<in> set ws. w < (2::nat) ^ 32 \<Longrightarrow> acc < (2::nat) ^ (32 * n) \<Longrightarrow>
     foldl (\<lambda>acc w. acc * 2 ^ 32 + w) acc ws < 2 ^ (32 * (n + length ws))"
proof (induction ws arbitrary: acc n)
  case Nil
  then show ?case by simp
next
  case (Cons w ws)
  have w: "w < (2::nat) ^ 32" using Cons.prems(1) by simp
  have "acc + 1 \<le> (2::nat) ^ (32 * n)" using Cons.prems(2) by simp
  then have "(acc + 1) * (2::nat) ^ 32 \<le> 2 ^ (32 * n) * 2 ^ 32" by (rule mult_right_mono) simp
  moreover have "(2::nat) ^ (32 * Suc n) = 2 ^ (32 * n) * 2 ^ 32"
  proof -
    have "32 * Suc n = 32 * n + 32" by simp
    then show ?thesis by (simp only: power_add)
  qed
  ultimately have "acc * 2 ^ 32 + w < (2::nat) ^ (32 * Suc n)"
    using w by (simp only: add_mult_distrib)
  then show ?case using Cons.IH [of "acc * 2 ^ 32 + w" "Suc n"] Cons.prems(1) by simp
qed

lemma sha256_less: "sha256 m < 2 ^ 256"
proof -
  have "length H256 = 8" "\<forall>x \<in> set H256. x < 2 ^ 32" by (simp_all add: H256_def)
  then have ok: "length (foldl compress H256 (blocks_of (words_of (sha_pad m)))) = 8"
    "\<forall>x \<in> set (foldl compress H256 (blocks_of (words_of (sha_pad m)))). x < 2 ^ 32"
    using foldl_compress_ok [of H256 "blocks_of (words_of (sha_pad m))"] by simp_all
  show ?thesis
    using digest_number_less [OF ok(2), of 0 0] ok(1) by (simp add: sha256_def)
qed

lemma create_unique_8digit_id_eq:
  "create_unique_8digit_id s = Inr (sub_leading_zeros (mod_str (sha256 (utf8_encode s))))"
  using int16_hexdigest [OF sha256_less, of "utf8_encode s"]
  by (simp add: create_unique_8digit_id_def)

lemma is_digit_digit_char: "d < 10 \<Longrightarrow> is_digit (digit_char d)"
  by (simp add: is_digit_def digit_char_def)

lemma str_nat_digits: "\<forall>c \<in> set (str_nat n). is_digit c"
proof (induction n rule: str_nat.induct)
  case (1 n)
  then show ?case
    by (subst str_nat.simps) (auto simp: is_digit_digit_char)
qed

lemma str_nat_length: "n < 10 ^ k \<Longrightarrow> 0 < k \<Longrightarrow> length (str_nat n) \<le> k"
proof (induction n arbitrary: k rule: str_nat.induct)
  case (1 n)
  show ?case
  proof (cases "n < 10")
    case True
    then show ?thesis using 1(3) by (subst str_nat.simps) simp
  next
    case False
    obtain j where k: "k = Suc j" using 1(3) by (cases k) auto
    have "j \<noteq> 0" using False 1(2) k by (cases j) auto
    moreover have "n div 10 < 10 ^ j" using 1(2) k
      by (simp add: less_mult_imp_div_less mult.commute)
    ultimately have "length (str_nat (n div 10)) \<le> j"
      using 1(1) [OF False, of j] by simp
    then show ?thesis using False k by (subst str_nat.simps) simp
  qed
qed

lemma str_nat_nonempty: "str_nat n \<noteq> []"
  by (subst str_nat.simps) simp

lemma mod_str_length: "length (mod_str h) = 8"
proof -
  have "mod_value h < 10 ^ 8" by (simp add: mod_value_def)
  then have "length (str_nat (mod_value h)) \<le> 8"
    using str_nat_length [of "mod_value h" 8] by simp
  then show ?thesis by (simp add: mod_str_def zfill_def)
qed

lemma mod_str_digits: "\<forall>c \<in> set (mod_str h). is_digit c"
  using str_nat_digits [of "mod_value h"]
  by (auto simp: mod_str_def zfill_def is_digit_def)

lemma leading_zeros_le: "leading_zeros s \<le> length s"
  by (simp add: leading_zeros_def length_takeWhile_le)

lemma sub_leading_zeros_length: "length (sub_leading_zeros s) = length s"
  using leading_zeros_le [of s] by (simp add: sub_leading_zeros_def)

lemma sub_leading_zeros_digits:
  "\<forall>c \<in> set s. is_digit c \<Longrightarrow> \<forall>c \<in> set (sub_leading_zeros s). is_digit c"
  by (auto simp: sub_leading_zeros_def is_digit_def dest: in_set_dropD)

lemma leading_zeros_split:
  "s = replicate (leading_zeros s) (CHR ''0'') @ drop (leading_zeros s) s"
proof -
  have "takeWhile (\<lambda>c. c = CHR ''0'') s = replicate (leading_zeros s) (CHR ''0'')"
    unfolding leading_zeros_def
    by (induction s) auto
  moreover have "drop (leading_zeros s) s = dropWhile (\<lambda>c. c = CHR ''0'') s"
    unfolding leading_zeros_def by (simp add: dropWhile_eq_drop)
  ultimately show ?thesis by (metis takeWhile_dropWhile_id)
qed

lemma leading_zeros_maximal: "take 1 (drop (leading_zeros s) s) \<noteq> ''0''"
proof -
  have "drop (leading_zeros s) s = dropWhile (\<lambda>c. c = CHR ''0'') s"
    unfolding leading_zeros_def by (simp add: dropWhile_eq_drop)
  moreover have "take 1 (dropWhile (\<lambda>c. c = CHR ''0'') s) \<noteq> ''0''"
    by (induction s) auto
  ultimately show ?thesis by simp
qed

lemma str_nat_small: "n < 10 \<Longrightarrow> str_nat n = [digit_char n]"
  by (subst str_nat.simps) simp
lemma str_nat_large: "\<not> n < 10 \<Longrightarrow> str_nat n = str_nat (n div 10) @ [digit_char (n mod 10)]"
  by (subst str_nat.simps) simp

lemma digit_char_simps:
  "digit_char 0 = CHR ''0''" "digit_char (Suc 0) = CHR ''1''" "digit_char 1 = CHR ''1''"
  "digit_char 2 = CHR ''2''"
  "digit_char 3 = CHR ''3''" "digit_char 4 = CHR ''4''" "digit_char 5 = CHR ''5''"
  "digit_char 6 = CHR ''6''" "digit_char 7 = CHR ''7''" "digit_char 8 = CHR ''8''"
  "digit_char 9 = CHR ''9''"
  unfolding digit_char_def by code_simp+

lemma str_nat_12345: "str_nat 12345 = ''12345''"
  by (simp add: str_nat_small str_nat_large digit_char_simps)

lemma zfill_8_5: "length s = 5 \<Longrightarrow> zfill 8 s = ''000'' @ s"
  by (simp add: zfill_def numeral_3_eq_3)

lemma zfill_8_1: "zfill 8 [c] = ''0000000'' @ [c]"
  by (simp add: zfill_def eval_nat_numeral)

lemma mod_str_12345: "mod_str 12345 = ''00012345''"
  by (simp add: mod_str_def mod_value_def zfill_8_5 str_nat_12345)

lemma sub_leading_zeros_12345: "sub_leading_zeros ''00012345'' = ''99912345''"
  by (simp add: sub_leading_zeros_def leading_zeros_def)

lemma mod_str_zero: "mod_value h = 0 \<Longrightarrow> mod_str h = ''00000000''"
  by (simp add: mod_str_def zfill_8_1 str_nat_small digit_char_simps)

lemma sub_leading_zeros_zero: "sub_leading_zeros ''00000000'' = ''99999999''"
  by (simp add: sub_leading_zeros_def leading_zeros_def)

lemma replicate_numeral: "replicate (numeral k) x = x # replicate (pred_numeral k) x"
  by (simp add: numeral_eq_Suc)

lemma schedule_numeral:
  "schedule (numeral k) w =
     schedule (pred_numeral k)
       (add32 (add32 (add32 (ssig1 (w ! 1)) (w ! 6)) (ssig0 (w ! 14))) (w ! 15) # w)"
  by (simp add: numeral_eq_Suc)

lemmas sha_eval = sha256_def compress_def schedule_numeral K256_def H256_def Let_def
  add32_def rotr_def shr_def not32_def ssig0_def ssig1_def bsig0_def bsig1_def
  sha_ch_def sha_maj_def

lemmas pad_eval = sha_pad_def be_bytes_def upt_conv_Cons replicate_numeral

text \<open>The example of the standard: the digest of the three bytes of \<open>abc\<close>.\<close>

lemma words_abc:
  "words_of (sha_pad [97, 98, 99]) = [0x61626380, 0, 0, 0, 0, 0, 0, 0, 0, 0, 0, 0, 0, 0, 0, 0x18]"
  by (simp add: pad_eval)

lemma sha256_abc:
  "sha256 [97, 98, 99] = 0xba7816bf8f01cfea414140de5dae2223b00361a396177a9cb410ff61f20015ad"
  by (simp add: sha_eval words_abc)

lemma utf8_M2_M7: "utf8_encode ''M2-M7'' = [77, 50, 45, 77, 55]"
  by (simp add: utf8_encode_def utf8_char_def)

lemma words_M2_M7:
  "words_of (sha_pad [77, 50, 45, 77, 55])
     = [0x4d322d4d, 0x37800000, 0, 0, 0, 0, 0, 0, 0, 0, 0, 0, 0, 0, 0, 0x28]"
  by (simp add: pad_eval)

lemma sha256_M2_M7:
  "sha256 [77, 50, 45, 77, 55]
     = 0x48f0d6c372fd049040f7734d9b30cc8fe051581117c77a266114eb969e8f5f02"
  by (simp add: sha_eval words_M2_M7)

lemma utf8_umlaut:
  "utf8_encode [CHR 0xC4, CHR ''2'', CHR ''-'', CHR ''M'', CHR ''7''] = [195, 132, 50, 45, 77, 55]"
  by (simp add: utf8_encode_def utf8_char_def)

lemma words_umlaut:
  "words_of (sha_pad [195, 132, 50, 45, 77, 55])
     = [0xc384322d, 0x4d378000, 0, 0, 0, 0, 0, 0, 0, 0, 0, 0, 0, 0, 0, 0x30]"
  by (simp add: pad_eval)

lemma sha256_umlaut:
  "sha256 [195, 132, 50, 45, 77, 55]
     = 0x73ce46e9cbcb698d1d93e07cef43975521e95411bbf2e57c1a51935c161366b4"
  by (simp add: sha_eval words_umlaut)

lemma mod_str_M2_M7:
  "mod_str 0x48f0d6c372fd049040f7734d9b30cc8fe051581117c77a266114eb969e8f5f02 = ''49323266''"
  by (simp add: mod_str_def mod_value_def zfill_def str_nat_small str_nat_large digit_char_simps)

lemma mod_str_umlaut:
  "mod_str 0x73ce46e9cbcb698d1d93e07cef43975521e95411bbf2e57c1a51935c161366b4 = ''05141940''"
  by (simp add: mod_str_def mod_value_def zfill_def str_nat_small str_nat_large digit_char_simps)

lemma id_M2_M7: "create_unique_8digit_id ''M2-M7'' = Inr ''49323266''"
  by (simp add: create_unique_8digit_id_eq utf8_M2_M7 sha256_M2_M7 mod_str_M2_M7
      sub_leading_zeros_def leading_zeros_def)

lemma id_umlaut:
  "create_unique_8digit_id [CHR 0xC4, CHR ''2'', CHR ''-'', CHR ''M'', CHR ''7''] = Inr ''95141940''"
  by (simp add: create_unique_8digit_id_eq utf8_umlaut sha256_umlaut mod_str_umlaut
      sub_leading_zeros_def leading_zeros_def)

text \<open>
  C5. For every string, \<open>create_unique_8digit_id\<close> returns a value and raises nothing:
  the SHA-256 digest of the UTF-8 bytes of the string, read as an unsigned integer, is
  reduced modulo \<open>10 ^ 8\<close>, its decimal numeral is padded with zeros to 8 characters,
  and the leading run of \<open>0\<close> is replaced by as many \<open>9\<close>. For every value of the hash
  the padded numeral has 8 characters, the result has 8 characters, all of them digits;
  the value 0 modulo \<open>10 ^ 8\<close> gives \<open>99999999\<close>, and the padded numeral \<open>00012345\<close>
  gives \<open>99912345\<close>.
\<close>

theorem create_unique_8digit_id_spec:
  "create_unique_8digit_id s
     = Inr (sub_leading_zeros (zfill 8 (str_nat (sha256 (utf8_encode s) mod 10 ^ 8))))
   \<and> (\<forall>hash_int.
        (let padded = zfill 8 (str_nat (hash_int mod 10 ^ 8));
             k = leading_zeros padded;
             r = sub_leading_zeros padded
         in length padded = 8
            \<and> padded = replicate k (CHR ''0'') @ drop k padded
            \<and> take 1 (drop k padded) \<noteq> ''0''
            \<and> r = replicate k (CHR ''9'') @ drop k padded
            \<and> length r = 8
            \<and> (\<forall>c \<in> set r. is_digit c)
            \<and> (hash_int mod 10 ^ 8 = 0 \<longrightarrow> r = ''99999999'')
            \<and> (padded = ''00012345'' \<longrightarrow> r = ''99912345'')))"
proof -
  have A: "create_unique_8digit_id s
     = Inr (sub_leading_zeros (zfill 8 (str_nat (sha256 (utf8_encode s) mod 10 ^ 8))))"
    by (simp add: create_unique_8digit_id_eq mod_str_def mod_value_def)
  have B: "(let padded = zfill 8 (str_nat (h mod 10 ^ 8));
             k = leading_zeros padded;
             r = sub_leading_zeros padded
         in length padded = 8
            \<and> padded = replicate k (CHR ''0'') @ drop k padded
            \<and> take 1 (drop k padded) \<noteq> ''0''
            \<and> r = replicate k (CHR ''9'') @ drop k padded
            \<and> length r = 8
            \<and> (\<forall>c \<in> set r. is_digit c)
            \<and> (h mod 10 ^ 8 = 0 \<longrightarrow> r = ''99999999'')
            \<and> (padded = ''00012345'' \<longrightarrow> r = ''99912345''))" for h
  proof -
    define p where "p = zfill 8 (str_nat (h mod 10 ^ 8))"
    define k where "k = leading_zeros p"
    define r where "r = sub_leading_zeros p"
    have p: "p = mod_str h" by (simp add: p_def mod_str_def mod_value_def)
    have 1: "length p = 8" by (simp add: p mod_str_length)
    have 2: "p = replicate k (CHR ''0'') @ drop k p"
      unfolding k_def by (rule leading_zeros_split)
    have 3: "take 1 (drop k p) \<noteq> ''0''"
      unfolding k_def by (rule leading_zeros_maximal)
    have 4: "r = replicate k (CHR ''9'') @ drop k p"
      by (simp add: r_def k_def sub_leading_zeros_def)
    have 5: "length r = 8" by (simp add: r_def sub_leading_zeros_length 1)
    have 6: "\<forall>c \<in> set r. is_digit c"
      unfolding r_def p by (rule sub_leading_zeros_digits) (rule mod_str_digits)
    have 7: "h mod 10 ^ 8 = 0 \<longrightarrow> r = ''99999999''"
      using mod_str_zero [of h] by (simp add: r_def p mod_value_def sub_leading_zeros_zero)
    have 8: "p = ''00012345'' \<longrightarrow> r = ''99912345''"
      by (simp add: r_def sub_leading_zeros_12345)
    from 1 2 3 4 5 6 7 8 show ?thesis
      unfolding Let_def p_def [symmetric] k_def [symmetric] r_def [symmetric]
      by (intro conjI)
  qed
  from A B show ?thesis by (intro conjI allI)
qed

text \<open>
  The identifiers of two strings, the second with a letter outside ASCII and a leading
  zero in its padded numeral, as \<open>hashlib\<close> gives them; and the two values of the
  specification.
\<close>

theorem create_unique_8digit_id_witness:
  "create_unique_8digit_id ''M2-M7'' = Inr ''49323266''
   \<and> create_unique_8digit_id [CHR 0xC4, CHR ''2'', CHR ''-'', CHR ''M'', CHR ''7''] = Inr ''95141940''
   \<and> sub_leading_zeros (mod_str 0) = ''99999999''
   \<and> sub_leading_zeros (mod_str 12345) = ''99912345''"
proof -
  note t1 = create_unique_8digit_id_spec [of "''M2-M7''", THEN conjunct1]
  note t2 = create_unique_8digit_id_spec
    [of "[CHR 0xC4, CHR ''2'', CHR ''-'', CHR ''M'', CHR ''7'']", THEN conjunct1]
  note t3 = create_unique_8digit_id_spec [of "''M2-M7''", THEN conjunct2, THEN spec, of 0]
  note t4 = create_unique_8digit_id_spec [of "''M2-M7''", THEN conjunct2, THEN spec, of 12345]
  have a: "create_unique_8digit_id ''M2-M7'' = Inr ''49323266''"
    using t1 mod_str_M2_M7
    by (simp add: utf8_M2_M7 sha256_M2_M7 mod_str_def mod_value_def sub_leading_zeros_def
        leading_zeros_def)
  have b: "create_unique_8digit_id [CHR 0xC4, CHR ''2'', CHR ''-'', CHR ''M'', CHR ''7'']
      = Inr ''95141940''"
    using t2 mod_str_umlaut
    by (simp add: utf8_umlaut sha256_umlaut mod_str_def mod_value_def sub_leading_zeros_def
        leading_zeros_def)
  note c7 = conjunct2 [THEN conjunct2, THEN conjunct2, THEN conjunct2, THEN conjunct2,
      THEN conjunct2]
  have z: "(0::nat) mod 10 ^ 8 = 0" by simp
  have c: "sub_leading_zeros (mod_str 0) = ''99999999''"
    unfolding mod_str_def mod_value_def
    by (rule t3 [unfolded Let_def, THEN c7, THEN conjunct1, THEN mp, OF z])
  have e: "zfill 8 (str_nat (12345 mod 10 ^ 8)) = ''00012345''"
    using mod_str_12345 by (simp only: mod_str_def mod_value_def)
  have d: "sub_leading_zeros (mod_str 12345) = ''99912345''"
    unfolding mod_str_def mod_value_def
    by (rule t4 [unfolded Let_def, THEN c7, THEN conjunct2, THEN mp, OF e])
  from a b c d show ?thesis by (intro conjI)
qed

section \<open>Properties of the node-size normalisation\<close>

lemma sequence_map_Inr:
  "(\<And>x. x \<in> set xs \<Longrightarrow> f x = Inr (g x)) \<Longrightarrow> sequence (map f xs) = Inr (map g xs)"
  by (induction xs) auto

lemma list_min_eq: "xs \<noteq> [] \<Longrightarrow> list_min xs = Min (set xs)"
proof (cases xs)
  case Nil
  assume "xs \<noteq> []"
  with Nil show ?thesis by simp
next
  case (Cons a l)
  then show ?thesis using Min.set_eq_fold [of a l] by simp
qed

lemma list_max_eq: "xs \<noteq> [] \<Longrightarrow> list_max xs = Max (set xs)"
proof (cases xs)
  case Nil
  assume "xs \<noteq> []"
  with Nil show ?thesis by simp
next
  case (Cons a l)
  then show ?thesis using Max.set_eq_fold [of a l] by simp
qed

lemma min_eq_max_iff:
  assumes "xs \<noteq> []"
  shows "list_max xs = list_min xs \<longleftrightarrow> (\<forall>a \<in> set xs. \<forall>b \<in> set xs. a = b)"
proof
  assume eq: "list_max xs = list_min xs"
  show "\<forall>a \<in> set xs. \<forall>b \<in> set xs. a = b"
  proof (intro ballI)
    fix a b assume "a \<in> set xs" "b \<in> set xs"
    then have "Min (set xs) \<le> a" "a \<le> Max (set xs)" "Min (set xs) \<le> b" "b \<le> Max (set xs)"
      by (simp_all only: Min_le Max_ge List.finite_set)
    moreover have "Max (set xs) = Min (set xs)"
      using eq assms by (simp add: list_min_eq list_max_eq)
    ultimately show "a = b" by linarith
  qed
next
  assume all: "\<forall>a \<in> set xs. \<forall>b \<in> set xs. a = b"
  have "Min (set xs) \<in> set xs" "Max (set xs) \<in> set xs"
    using assms by (simp_all add: Min_in Max_in)
  then show "list_max xs = list_min xs"
    using all assms by (simp add: list_min_eq list_max_eq)
qed

lemma scale_node_ok:
  assumes "max_count \<noteq> min_count"
  shows "scale_node lo hi min_count max_count ns =
    Inr (fst ns, lo + of_int (snd ns - min_count) / of_int (max_count - min_count) * (hi - lo))"
  using assms by (simp add: scale_node_def truediv_def)

text \<open>
C9. The normalisation of the node sizes never fails, and never divides by zero. When all
  aggregates are equal (a single node included), every node gets the midpoint 1650 and no
  division by the difference of the extremes takes place. Otherwise the difference of the
  extremes is not zero, every node gets \<open>300 + (size - min) / (max - min) * 2700\<close>,
  which lies between 300 and 3000, a node of the least aggregate gets 300 and a node of
  the greatest gets 3000. The nodes keep their labels and their order.
\<close>

theorem scaled_sizes_spec:
  "(let counts = map snd sizes; min_count = Min (set counts); max_count = Max (set counts);
        linear = (\<lambda>size. 300 + of_int (size - min_count) / of_int (max_count - min_count) * (3000 - 300))
    in (sizes = [] \<longrightarrow> scaled_sizes sizes = Inr [])
     \<and> (sizes \<noteq> [] \<and> (\<forall>a \<in> set counts. \<forall>b \<in> set counts. a = b) \<longrightarrow>
          scaled_sizes sizes = Inr (map (\<lambda>ns. (fst ns, 1650)) sizes))
     \<and> (\<not> (\<forall>a \<in> set counts. \<forall>b \<in> set counts. a = b) \<longrightarrow>
          scaled_sizes sizes = Inr (map (\<lambda>ns. (fst ns, linear (snd ns))) sizes)
          \<and> max_count - min_count \<noteq> 0
          \<and> linear min_count = 300 \<and> linear max_count = 3000
          \<and> min_count \<in> set counts \<and> max_count \<in> set counts
          \<and> (\<forall>c \<in> set counts. 300 \<le> linear c \<and> linear c \<le> 3000))
     \<and> (\<exists>out. scaled_sizes sizes = Inr out \<and> map fst out = map fst sizes))"
proof -
  define counts where "counts = map snd sizes"
  define mn where "mn = Min (set counts)"
  define mx where "mx = Max (set counts)"
  define linear :: "int \<Rightarrow> rat" where
    "linear = (\<lambda>size. 300 + of_int (size - mn) / of_int (mx - mn) * (3000 - 300))"
  have A: "sizes = [] \<longrightarrow> scaled_sizes sizes = Inr []"
    by (simp add: scaled_sizes_def scale_sizes_def)
  have B: "scaled_sizes sizes = Inr (map (\<lambda>ns. (fst ns, 1650)) sizes)"
    if "sizes \<noteq> []" "\<forall>a \<in> set counts. \<forall>b \<in> set counts. a = b"
  proof -
    have "counts \<noteq> []" using that(1) by (simp add: counts_def)
    then have "list_max counts = list_min counts" using that(2) by (simp add: min_eq_max_iff)
    then show ?thesis using \<open>counts \<noteq> []\<close>
      by (simp add: scaled_sizes_def scale_sizes_def counts_def [symmetric] Let_def)
  qed
  have C: "scaled_sizes sizes = Inr (map (\<lambda>ns. (fst ns, linear (snd ns))) sizes)
          \<and> mx - mn \<noteq> 0 \<and> linear mn = 300 \<and> linear mx = 3000
          \<and> mn \<in> set counts \<and> mx \<in> set counts
          \<and> (\<forall>c \<in> set counts. 300 \<le> linear c \<and> linear c \<le> 3000)"
    if ne: "\<not> (\<forall>a \<in> set counts. \<forall>b \<in> set counts. a = b)"
  proof -
    have nonempty: "counts \<noteq> []" using ne by auto
    then have neq: "list_max counts \<noteq> list_min counts" using ne by (simp add: min_eq_max_iff)
    then have d: "mx \<noteq> mn" using nonempty by (simp add: mx_def mn_def list_min_eq list_max_eq)
    have "mn \<le> mx" using nonempty unfolding mn_def mx_def
      by (meson List.finite_set Min_in Max_ge set_empty)
    then have pos: "0 < mx - mn" using d by simp
    have 1: "scaled_sizes sizes = Inr (map (\<lambda>ns. (fst ns, linear (snd ns))) sizes)"
    proof -
      have "sequence (map (scale_node 300 3000 mn mx) sizes)
          = Inr (map (\<lambda>ns. (fst ns, linear (snd ns))) sizes)"
        by (rule sequence_map_Inr) (simp add: scale_node_ok d linear_def)
      then show ?thesis using nonempty neq
        by (simp add: scaled_sizes_def scale_sizes_def counts_def [symmetric] Let_def
            mx_def mn_def list_min_eq list_max_eq)
    qed
    have 2: "linear mn = 300" by (simp add: linear_def)
    have 3: "linear mx = 3000"
    proof -
      have "(of_int (mx - mn) :: rat) \<noteq> 0" using pos by simp
      then have "(of_int (mx - mn) :: rat) / of_int (mx - mn) = 1" by (rule divide_self)
      then show ?thesis unfolding linear_def by (simp del: of_int_diff)
    qed
    have 4: "mn \<in> set counts" "mx \<in> set counts"
      using nonempty by (simp_all add: mn_def mx_def Min_in Max_in)
    have 5: "300 \<le> linear c \<and> linear c \<le> 3000" if "c \<in> set counts" for c
    proof -
      define q :: rat where "q = of_int (c - mn) / of_int (mx - mn)"
      have "mn \<le> c" "c \<le> mx" using that by (simp_all add: mn_def mx_def)
      then have "0 \<le> q" "q \<le> 1"
        using pos by (simp_all add: q_def divide_le_eq_1)
      moreover have "linear c = 300 + q * 2700" by (simp add: linear_def q_def)
      ultimately show ?thesis by simp
    qed
    from 1 d 2 3 4 5 show ?thesis by simp
  qed
  have D: "\<exists>out. scaled_sizes sizes = Inr out \<and> map fst out = map fst sizes"
  proof (cases "sizes = []")
    case True
    then show ?thesis using A by simp
  next
    case False
    show ?thesis
    proof (cases "\<forall>a \<in> set counts. \<forall>b \<in> set counts. a = b")
      case True
      then show ?thesis using B [OF False] by (simp add: comp_def)
    next
      case False
      then show ?thesis using C by (simp add: comp_def)
    qed
  qed
  note C' = C [unfolded linear_def]
  from A B C' D show ?thesis
    unfolding Let_def counts_def [symmetric] mn_def [symmetric] mx_def [symmetric]
    by blast
qed

theorem scaled_sizes_witness:
  "scaled_sizes [(''X'', 10), (''Y'', 10)] = Inr [(''X'', 1650), (''Y'', 1650)]
   \<and> scaled_sizes [(''X'', 10), (''Y'', 30), (''Z'', 20)]
       = Inr [(''X'', 300), (''Y'', 3000), (''Z'', 1650)]
   \<and> scaled_sizes [] = Inr []"
  using scaled_sizes_spec [of "[(''X'', 10), (''Y'', 10)]"]
    scaled_sizes_spec [of "[(''X'', 10), (''Y'', 30), (''Z'', 20)]"]
    scaled_sizes_spec [of "[]"]
  by (auto simp: Let_def)

section \<open>Properties of the map from item to order number\<close>

lemma set_drop_duplicates [simp]: "set (drop_duplicates xs) = set xs"
  by (induction xs rule: drop_duplicates.induct) auto

lemma distinct_drop_duplicates [simp]: "distinct (drop_duplicates xs)"
  by (induction xs rule: drop_duplicates.induct) auto

lemma drop_duplicates_Nil_iff [simp]: "drop_duplicates xs = [] \<longleftrightarrow> xs = []"
  by (cases xs) auto

lemma hd_drop_duplicates: "hd (drop_duplicates xs) = hd xs"
  by (cases xs) auto

lemma fold_update_map_of:
  "fold (\<lambda>(k, v) m. m(k \<mapsto> v)) kvs m0 = m0 ++ map_of (rev kvs)"
  by (induction kvs arbitrary: m0) (auto simp: map_add_def fun_eq_iff split: option.splits)

lemma dict_of_map_of: "dict_of kvs = map_of (rev kvs)"
  by (simp add: dict_of_def fold_update_map_of)

lemma map_of_rev_last:
  "map_of (rev kvs) k =
     (case filter (\<lambda>p. fst p = k) kvs of [] \<Rightarrow> None | p # ps \<Rightarrow> Some (snd (last (p # ps))))"
proof (induction kvs rule: rev_induct)
  case Nil
  then show ?case by simp
next
  case (snoc x xs)
  then show ?case by (cases x) (auto split: list.splits)
qed

lemma dict_of_last:
  "dict_of kvs k =
     (let vs = map snd (filter (\<lambda>p. fst p = k) kvs) in if vs = [] then None else Some (last vs))"
  by (simp add: dict_of_map_of map_of_rev_last Let_def last_map split: list.splits)

lemma drop_duplicates_key:
  "map snd (filter (\<lambda>p. fst p = k) (drop_duplicates ps))
     = drop_duplicates (map snd (filter (\<lambda>p. fst p = k) ps))"
proof (induction ps rule: drop_duplicates.induct)
  case 1
  then show ?case by simp
next
  case (2 p ps)
  show ?case
  proof (cases "fst p = k")
    case True
    have "map snd (filter (\<lambda>q. fst q = k) (filter (\<lambda>y. y \<noteq> p) ps))
        = filter (\<lambda>y. y \<noteq> snd p) (map snd (filter (\<lambda>q. fst q = k) ps))"
      using True by (induction ps) (auto simp: prod_eq_iff)
    then show ?thesis using True 2 by simp
  next
    case False
    have "filter (\<lambda>q. fst q = k) (filter (\<lambda>y. y \<noteq> p) ps) = filter (\<lambda>q. fst q = k) ps"
      using False by (induction ps) auto
    then show ?thesis using False 2 by simp
  qed
qed

lemma item_bestell_map_eq:
  "item_bestell_map df item =
     (if codes_of df item = [] then None else Some (last (drop_duplicates (codes_of df item))))"
proof -
  have "map snd (filter (\<lambda>p. fst p = item) (map (\<lambda>r. (row_item r, row_code r)) df))
      = codes_of df item"
    by (induction df) (auto simp: codes_of_def)
  then show ?thesis
    by (simp add: item_bestell_map_def unique_items_def dict_of_last drop_duplicates_key Let_def)
qed

text \<open>
  C3, as the script builds the map. The pairs of item and order number are freed of
  repetitions, keeping first occurrences, and stored in turn, a later pair replacing an
  earlier one of the same item. So an item that occurs with several order numbers is
  mapped to the one that appears last among its distinct order numbers taken in order of
  first occurrence; an item that occurs with a single order number is mapped to that
  one; an item that does not occur is no key of the map.
\<close>

theorem item_bestell_map_last_distinct:
  "(codes_of df (Text name) = [] \<longrightarrow> item_bestell_map df (Text name) = None)
   \<and> (codes_of df (Text name) \<noteq> [] \<longrightarrow>
        item_bestell_map df (Text name) = Some (last (drop_duplicates (codes_of df (Text name)))))
   \<and> (\<forall>c. set (codes_of df (Text name)) = {c} \<longrightarrow> item_bestell_map df (Text name) = Some c)"
proof -
  have "item_bestell_map df (Text name) = Some c" if "set (codes_of df (Text name)) = {c}" for c
  proof -
    have ne: "codes_of df (Text name) \<noteq> []" using that by auto
    have "set (drop_duplicates (codes_of df (Text name))) = {c}" using that by simp
    moreover have "drop_duplicates (codes_of df (Text name)) \<noteq> []" using ne by simp
    ultimately have "last (drop_duplicates (codes_of df (Text name))) = c"
      using last_in_set by blast
    then show ?thesis using ne by (simp add: item_bestell_map_eq)
  qed
  then show ?thesis by (simp add: item_bestell_map_eq)
qed

text \<open>
  Item \<open>A\<close> occurs with \<open>M1\<close>, then \<open>M2\<close>, then \<open>M1\<close> again: the map holds \<open>M2\<close>,
  which is neither the order number of the first occurrence nor that of the last row.
\<close>

theorem item_bestell_map_counterexample:
  "codes_of example_rows (Text ''A'') = [Text ''M1'', Text ''M2'', Text ''M1'']
   \<and> item_bestell_map example_rows (Text ''A'') = Some (Text ''M2'')"
  by (simp add: example_rows_def codes_of_def item_bestell_map_def unique_items_def dict_of_def)

theorem item_bestell_map_witness:
  "item_bestell_map example_rows (Text ''A'') = Some (Text ''M2'')
   \<and> item_bestell_map example_rows (Text ''B'') = Some (Text ''M7'')
   \<and> item_bestell_map example_rows (Text ''C'') = None"
proof -
  have a: "codes_of example_rows (Text ''A'') = [Text ''M1'', Text ''M2'', Text ''M1'']"
    and b: "codes_of example_rows (Text ''B'') = [Text ''M7'']"
    and c: "codes_of example_rows (Text ''C'') = []"
    by (simp_all add: example_rows_def codes_of_def)
  show ?thesis
    using item_bestell_map_last_distinct [of example_rows "''A''"]
      item_bestell_map_last_distinct [of example_rows "''B''"]
      item_bestell_map_last_distinct [of example_rows "''C''"]
    by (simp add: a b c)
qed

section \<open>Properties of the transactions\<close>

lemma set_map_filter_row_id:
  "set (List.map_filter row_id df) = {k. \<exists>r \<in> set df. row_id r = Some k}"
  by (induction df) (auto simp: map_filter_simps split: option.splits)

lemma group_keys_set: "set (group_keys df) = {k. \<exists>r \<in> set df. row_id r = Some k}"
proof -
  have "finite (set (List.map_filter row_id df))" by simp
  then have "set (sorted_list_of_set (set (List.map_filter row_id df)))
      = set (List.map_filter row_id df)"
    by (rule set_sorted_list_of_set)
  then show ?thesis by (simp only: group_keys_def set_map_filter_row_id)
qed

lemma group_keys_sorted: "sorted (group_keys df)" and group_keys_distinct: "distinct (group_keys df)"
  by (simp_all add: group_keys_def)

lemma group_keys_length: "length (group_keys df) = card {k. \<exists>r \<in> set df. row_id r = Some k}"
  using distinct_card [OF group_keys_distinct, of df] by (simp add: group_keys_set)

lemma clean_items_Nil_iff: "clean_items x = [] \<longleftrightarrow> (\<forall>c \<in> set x. c = NaN)"
proof -
  have "filter notna x = [] \<longleftrightarrow> (\<forall>c \<in> set x. c = NaN)"
    by (induction x) (auto elim: notna.elims)
  then show ?thesis by (simp add: clean_items_def)
qed

lemma group_items_set: "set (group_items df k) = row_item ` {r \<in> set df. row_id r = Some k}"
  by (auto simp: group_items_def)

lemma te_transform_length: "length (te_transform cols ts) = length ts"
  by (simp add: te_transform_def)

lemma te_transform_empty: "[] \<in> set ts \<Longrightarrow> replicate (length cols) False \<in> set (te_transform cols ts)"
  by (force simp: te_transform_def map_replicate_const [symmetric] image_iff)

text \<open>
  C4, as the script cleans the input. There is one transaction per distinct transaction
  id, in ascending order of the ids, holding the stripped names of the rows of that id
  whose item is not missing. A transaction is empty exactly when every row of its id
  lacks the item; such a transaction is kept: the encoded frame has one row for every
  transaction, and for an empty one a row that is false in every column.
\<close>

theorem transactions_keep_empty:
  "\<forall>ts. transactions df = Inr ts \<longrightarrow>
         ts = map (\<lambda>k. clean_items (group_items df k)) (group_keys df)
       \<and> distinct (group_keys df)
       \<and> length ts = card {k. \<exists>r \<in> set df. row_id r = Some k}
       \<and> ([] \<in> set ts \<longleftrightarrow>
            (\<exists>k. (\<exists>r \<in> set df. row_id r = Some k)
               \<and> (\<forall>r \<in> set df. row_id r = Some k \<longrightarrow> row_item r = NaN)))
       \<and> length (df_rows (df_transformed ts)) = length ts
       \<and> ([] \<in> set ts \<longrightarrow>
            replicate (length (df_columns (df_transformed ts))) False
              \<in> set (df_rows (df_transformed ts)))"
proof (intro allI impI)
  fix ts assume "transactions df = Inr ts"
  then have ts: "ts = map (\<lambda>k. clean_items (group_items df k)) (group_keys df)"
    by (auto simp: transactions_def grouped_def Let_def comp_def split: if_splits)
  have len: "length ts = card {k. \<exists>r \<in> set df. row_id r = Some k}"
    by (simp add: ts group_keys_length)
  have "[] \<in> set ts \<longleftrightarrow> (\<exists>k \<in> set (group_keys df). clean_items (group_items df k) = [])"
    unfolding ts by (simp add: image_iff) metis
  also have "\<dots> \<longleftrightarrow> (\<exists>k. (\<exists>r \<in> set df. row_id r = Some k)
               \<and> (\<forall>r \<in> set df. row_id r = Some k \<longrightarrow> row_item r = NaN))"
    by (auto simp: group_keys_set clean_items_Nil_iff group_items_set)
  finally have empty: "[] \<in> set ts \<longleftrightarrow> (\<exists>k. (\<exists>r \<in> set df. row_id r = Some k)
               \<and> (\<forall>r \<in> set df. row_id r = Some k \<longrightarrow> row_item r = NaN))" .
  have rows: "length (df_rows (df_transformed ts)) = length ts"
    by (simp add: df_transformed_def te_transform_length)
  have enc: "[] \<in> set ts \<longrightarrow>
            replicate (length (df_columns (df_transformed ts))) False
              \<in> set (df_rows (df_transformed ts))"
    by (simp add: df_transformed_def te_transform_empty)
  from ts group_keys_distinct [of df] len empty rows enc
  show "ts = map (\<lambda>k. clean_items (group_items df k)) (group_keys df)
       \<and> distinct (group_keys df)
       \<and> length ts = card {k. \<exists>r \<in> set df. row_id r = Some k}
       \<and> ([] \<in> set ts \<longleftrightarrow>
            (\<exists>k. (\<exists>r \<in> set df. row_id r = Some k)
               \<and> (\<forall>r \<in> set df. row_id r = Some k \<longrightarrow> row_item r = NaN)))
       \<and> length (df_rows (df_transformed ts)) = length ts
       \<and> ([] \<in> set ts \<longrightarrow>
            replicate (length (df_columns (df_transformed ts))) False
              \<in> set (df_rows (df_transformed ts)))"
    by (intro conjI)
qed

lemma example_missing_keys: "group_keys example_missing = [1, 2, 3]"
  by (simp add: group_keys_def example_missing_def List.map_filter_def)

lemma strip_example: "strip '' A '' = ''A''"
  by (simp add: strip_def is_space_def)

lemma grouped_example_missing:
  "grouped example_missing = [(1, []), (2, [''A'', ''B'']), (3, [''A'', ''B''])]"
  unfolding grouped_def example_missing_keys
  by (simp add: clean_items_def group_items_def example_missing_def strip_example)
     (simp add: strip_def is_space_def)

lemma transactions_example_missing:
  "transactions example_missing = Inr [[], [''A'', ''B''], [''A'', ''B'']]"
  by (simp add: transactions_def grouped_example_missing)

lemma frame_example_missing:
  "df_transformed [[], [''A'', ''B''], [''A'', ''B'']]
     = \<lparr>df_columns = [''A'', ''B''], df_rows = [[False, False], [True, True], [True, True]]\<rparr>"
proof -
  have "te_columns [[], [''A'', ''B''], [''A'', ''B'']] = [''A'', ''B'']"
    unfolding te_columns_def sorted_list_of_set_sort_remdups
    by (simp add: less_eq_char_def)
  then show ?thesis by (simp add: df_transformed_def te_transform_def)
qed

text \<open>
  Id 1 has a single row, without item: its transaction is empty, it is a row of the
  encoded frame, and it counts in the supports: item \<open>A\<close>, which is in both other
  transactions, has support 2/3.
\<close>

theorem transactions_counterexample:
  "transactions example_missing = Inr [[], [''A'', ''B''], [''A'', ''B'']]
   \<and> df_rows (df_transformed [[], [''A'', ''B''], [''A'', ''B'']])
       = [[False, False], [True, True], [True, True]]
   \<and> support_of (df_transformed [[], [''A'', ''B''], [''A'', ''B'']]) [''A''] = 2 / 3"
  by (simp add: transactions_example_missing frame_example_missing support_of_def
      support_count_def all_true_def col_value_def)

theorem transactions_keep_empty_witness:
  "transactions example_missing = Inr [[], [''A'', ''B''], [''A'', ''B'']]
    \<and> [] \<in> set [[], [''A'', ''B''], [''A'', ''B'']]
    \<and> length (df_rows (df_transformed [[], [''A'', ''B''], [''A'', ''B'']])) = 3
    \<and> replicate (length (df_columns (df_transformed [[], [''A'', ''B''], [''A'', ''B'']]))) False
         \<in> set (df_rows (df_transformed [[], [''A'', ''B''], [''A'', ''B'']]))"
proof -
  let ?ts = "[[], [''A'', ''B''], [''A'', ''B'']]"
  note t = transactions_keep_empty [of example_missing, THEN spec, of ?ts, THEN mp,
      OF transactions_example_missing]
  note c4 = conjunct2 [THEN conjunct2, THEN conjunct2, THEN conjunct2]
  have e: "[] \<in> set ?ts" by simp
  have "length (df_rows (df_transformed ?ts)) = length ?ts"
    by (rule t [THEN c4, THEN conjunct1])
  then have l: "length (df_rows (df_transformed ?ts)) = 3" by simp
  have r: "replicate (length (df_columns (df_transformed ?ts))) False
         \<in> set (df_rows (df_transformed ?ts))"
    by (rule t [THEN c4, THEN conjunct2, THEN mp, OF e])
  from transactions_example_missing e l r show ?thesis by (intro conjI)
qed

section \<open>Properties of the combination of order numbers\<close>

lemma set_bestellnummern: "set (bestellnummern m items) = mapped_codes m (set items)"
  by (induction items) (auto simp: mapped_codes_def split: option.splits)

lemma set_map_filter_codes:
  "set (List.map_filter (\<lambda>item. map_option str_cell (m (Text item))) items) = mapped_codes m (set items)"
  by (induction items) (auto simp: mapped_codes_def map_filter_simps split: option.splits)

lemma finite_mapped_codes: "finite items \<Longrightarrow> finite (mapped_codes m items)"
proof -
  assume "finite items"
  then have "finite ((\<lambda>item. str_cell (the (m (Text item)))) ` items)" by simp
  moreover have "mapped_codes m items \<subseteq> (\<lambda>item. str_cell (the (m (Text item)))) ` items"
    by (force simp: mapped_codes_def)
  ultimately show ?thesis by (rule rev_finite_subset)
qed

lemma remdups_sort: "remdups (sort xs) = sorted_list_of_set (set xs)"
proof (rule sorted_distinct_set_unique)
  show "sorted (remdups (sort xs))" by (simp add: sorted_remdups)
qed simp_all

text \<open>
  C6. For every rule, \<open>Mat_combination\<close> is the dash-joined list of the order numbers of
  the items of antecedent and consequent that are keys of the map, in ascending
  (lexicographic) order and without repetition; items that are no key contribute
  nothing. It equals the combination as the specification words it, and it is the empty
  string when no item of the rule is a key.
\<close>

theorem get_mat_combination_spec:
  "get_mat_combination m A C = join ''-'' (sorted_list_of_set (mapped_codes m (set A \<union> set C)))
   \<and> get_mat_combination m A C = mat_combination_spec m A C
   \<and> sorted (sorted_list_of_set (mapped_codes m (set A \<union> set C)))
   \<and> distinct (sorted_list_of_set (mapped_codes m (set A \<union> set C)))
   \<and> set (sorted_list_of_set (mapped_codes m (set A \<union> set C))) = mapped_codes m (set A \<union> set C)
   \<and> ((\<forall>item \<in> set A \<union> set C. m (Text item) = None) \<longrightarrow> get_mat_combination m A C = '''')"
proof -
  have fin: "finite (mapped_codes m (set A \<union> set C))"
    by (rule finite_mapped_codes) simp
  have 1: "get_mat_combination m A C
      = join ''-'' (sorted_list_of_set (mapped_codes m (set A \<union> set C)))"
    by (simp add: get_mat_combination_def frozenset_union_def set_bestellnummern)
  have 2: "mat_combination_spec m A C
      = join ''-'' (sorted_list_of_set (mapped_codes m (set A \<union> set C)))"
    by (simp add: mat_combination_spec_def remdups_sort set_map_filter_codes)
  have 3: "mapped_codes m (set A \<union> set C) = {}"
    if "\<forall>item \<in> set A \<union> set C. m (Text item) = None"
    using that by (auto simp: mapped_codes_def)
  show ?thesis using 1 2 3 fin by auto
qed

lemma example_map:
  "item_bestell_map example_rows (Text ''A'') = Some (Text ''M2'')"
  "item_bestell_map example_rows (Text ''B'') = Some (Text ''M7'')"
  "item_bestell_map example_rows (Text ''Y'') = None"
  "item_bestell_map example_rows (Text ''Z'') = None"
  by (simp_all add: item_bestell_map_eq codes_of_def example_rows_def)

lemma sorted_codes_example: "sorted_list_of_set {''M7'', ''M2''} = [''M2'', ''M7'']"
proof -
  have "sorted_list_of_set (set [''M7'', ''M2'']) = [''M2'', ''M7'']"
    unfolding sorted_list_of_set_sort_remdups by (simp add: less_eq_char_def)
  then show ?thesis by simp
qed

theorem get_mat_combination_witness:
  "get_mat_combination (item_bestell_map example_rows) [''Y''] [''Z''] = ''''
   \<and> get_mat_combination (item_bestell_map example_rows) [''B''] [''A'', ''Z''] = ''M2-M7''"
proof -
  let ?m = "item_bestell_map example_rows"
  have none: "\<forall>item \<in> set [''Y''] \<union> set [''Z'']. ?m (Text item) = None"
    by (simp add: example_map)
  have a: "get_mat_combination ?m [''Y''] [''Z''] = ''''"
    using get_mat_combination_spec [of ?m "[''Y'']" "[''Z'']"] none by blast
  have codes: "mapped_codes ?m (set [''B''] \<union> set [''A'', ''Z'']) = {''M7'', ''M2''}"
    using set_bestellnummern [of ?m "[''B'', ''A'', ''Z'']"]
    by (simp add: example_map insert_commute)
  have "get_mat_combination ?m [''B''] [''A'', ''Z'']
      = join ''-'' (sorted_list_of_set (mapped_codes ?m (set [''B''] \<union> set [''A'', ''Z''])))"
    using get_mat_combination_spec [of ?m "[''B'']" "[''A'', ''Z'']"] by blast
  also have "\<dots> = join ''-'' [''M2'', ''M7'']"
    by (simp only: codes sorted_codes_example)
  also have "\<dots> = ''M2-M7''" by simp
  finally show ?thesis using a by simp
qed

section \<open>Properties of the exported table\<close>

lemma sequence_map_Inr_id: "sequence (map Inr ys) = Inr ys"
  by (induction ys) auto

lemma sequence_Inr_D: "sequence xs = Inr ys \<Longrightarrow> xs = map Inr ys"
  by (induction xs arbitrary: ys) (auto split: sum.splits)

lemma sequence_Inr_iff: "sequence xs = Inr ys \<longleftrightarrow> xs = map Inr ys"
  using sequence_Inr_D sequence_map_Inr_id by blast

lemma select_export_labels: "select_columns export_labels (rule_cells r) = Inr (export_row r)"
  by (simp add: select_columns_def export_labels_def rule_cells_def export_row_def)

lemma export_row_labels: "map fst (export_row r) = export_labels"
  by (simp add: export_row_def export_labels_def)

lemma rules_export_eq: "rules_export rules = Inr (map export_row rules)"
  unfolding rules_export_def by (rule sequence_map_Inr) (rule select_export_labels)

text \<open>
  C7, with the label the script gives the last column. Whenever the annotation of the rule
  table succeeds, the table has at least one rule, and one annotated row per generated
  rule in the order of generation. The export selects from every row, which also carries
  \<open>antecedent support\<close> and \<open>consequent support\<close>, the columns \<open>antecedents\<close>,
  \<open>consequents\<close>, \<open>support\<close>, \<open>confidence\<close>, \<open>lift\<close>, \<open>leverage\<close>, \<open>conviction\<close>,
  \<open>zhangs_metric\<close>, \<open>combination_count\<close>, \<open>Mat_combination\<close>, \<open>Mat_combination_id\<close>,
  \<open>different items\<close> (with a blank), in that order, one exported row per rule.
\<close>

theorem rules_export_spec:
  "\<forall>rules. annotate_all d m rs = Inr rules \<longrightarrow>
       rs \<noteq> []
     \<and> length rules = length rs
     \<and> map (annotate d m) rs = map Inr rules
     \<and> rules_export rules = Inr (map export_row rules)
     \<and> map (map fst) (map export_row rules) = replicate (length rs)
          [''antecedents'', ''consequents'', ''support'', ''confidence'', ''lift'', ''leverage'',
           ''conviction'', ''zhangs_metric'', ''combination_count'', ''Mat_combination'',
           ''Mat_combination_id'', ''different items'']"
proof (intro allI impI)
  fix rules assume a: "annotate_all d m rs = Inr rules"
  then have ne: "rs \<noteq> []" by (auto simp: annotate_all_def split: if_splits)
  then have "sequence (map (annotate d m) rs) = Inr rules"
    using a by (simp add: annotate_all_def)
  then have m: "map (annotate d m) rs = map Inr rules" by (rule sequence_Inr_D)
  then have "length (map (annotate d m) rs) = length (map Inr rules)" by simp
  then have len: "length rules = length rs" by simp
  have lab: "map (map fst) (map export_row rules) = replicate (length rs) export_labels"
    by (simp add: export_row_labels map_replicate_const comp_def len)
  from ne len m rules_export_eq [of rules] lab [unfolded export_labels_def]
  show "rs \<noteq> []
     \<and> length rules = length rs
     \<and> map (annotate d m) rs = map Inr rules
     \<and> rules_export rules = Inr (map export_row rules)
     \<and> map (map fst) (map export_row rules) = replicate (length rs)
          [''antecedents'', ''consequents'', ''support'', ''confidence'', ''lift'', ''leverage'',
           ''conviction'', ''zhangs_metric'', ''combination_count'', ''Mat_combination'',
           ''Mat_combination_id'', ''different items'']"
    by (intro conjI)
qed

text \<open>
  The last column of the export is labelled \<open>different items\<close>; the table has no column
  \<open>different_items\<close>, and selecting the labels of the specification raises \<open>KeyError\<close>.
  On a rule table without rows the count of the combinations raises \<open>ValueError\<close>, and
  nothing is exported.
\<close>

theorem rules_export_counterexample:
  "rules_export [example_rule ''A'' ''B'' 2] = Inr [export_row (example_rule ''A'' ''B'' 2)]
   \<and> map fst (export_row (example_rule ''A'' ''B'' 2)) \<noteq> spec_labels
   \<and> select_columns spec_labels (rule_cells (example_rule ''A'' ''B'' 2)) = Inl KeyError
   \<and> annotate_all example_frame (item_bestell_map example_rows) [] = Inl ValueError"
  by (simp add: rules_export_eq export_row_labels export_labels_def
      spec_labels_def select_columns_def rule_cells_def annotate_all_def)

lemma example_frame_eq:
  "example_frame = \<lparr>df_columns = [''A'', ''B''], df_rows = [[True, True], [True, False]]\<rparr>"
proof -
  have "te_columns [[''A'', ''B''], [''A'']] = [''A'', ''B'']"
    unfolding te_columns_def sorted_list_of_set_sort_remdups
    by (simp add: less_eq_char_def)
  then show ?thesis by (simp add: example_frame_def df_transformed_def te_transform_def)
qed

lemma example_annotate:
  "annotate example_frame (item_bestell_map example_rows)
     (mk_rule [''A''] [''B''] (1 / 2) 1 (1 / 2)) = Inr (example_rule ''A'' ''B'' 1)"
proof -
  let ?m = "item_bestell_map example_rows"
  have cc: "combination_count_of example_frame [''A''] [''B''] = Inr 1"
    by (simp add: example_frame_eq combination_count_of_def all_true_def col_value_def)
  have "sorted_list_of_set (set (bestellnummern ?m (frozenset_union [''A''] [''B''])))
      = [''M2'', ''M7'']"
    using sorted_codes_example by (simp add: frozenset_union_def example_map insert_commute)
  then have mat: "get_mat_combination ?m [''A''] [''B''] = ''M2-M7''"
    by (simp add: get_mat_combination_def)
  have r: "render [''A''] = ''A''" "render [''B''] = ''B''"
    by (simp_all add: render_def)
  show ?thesis
    by (simp add: annotate_def mk_rule_def Let_def cc mat id_M2_M7 r example_rule_def zhang_def
        frozenset_union_def)
qed

text \<open>
  The rule \<open>A \<rightarrow> B\<close> of the transactions \<open>{A, B}\<close>, \<open>{A}\<close>: its annotation and its
  exported row.
\<close>

theorem rules_export_witness:
  "annotate_all example_frame (item_bestell_map example_rows)
      [mk_rule [''A''] [''B''] (1 / 2) 1 (1 / 2)] = Inr [example_rule ''A'' ''B'' 1]
   \<and> rules_export [example_rule ''A'' ''B'' 1] = Inr [export_row (example_rule ''A'' ''B'' 1)]
   \<and> map fst (export_row (example_rule ''A'' ''B'' 1))
       = [''antecedents'', ''consequents'', ''support'', ''confidence'', ''lift'', ''leverage'',
          ''conviction'', ''zhangs_metric'', ''combination_count'', ''Mat_combination'',
          ''Mat_combination_id'', ''different items'']
   \<and> map snd (export_row (example_rule ''A'' ''B'' 1))
       = [Str ''A'', Str ''B'', Num (1 / 2), Num (1 / 2), Num 1, Num 0, Ext (Fin 1), Num 0,
          Cnt 1, Str ''M2-M7'', Str ''49323266'', Cnt 2]"
proof -
  let ?rs = "[mk_rule [''A''] [''B''] (1 / 2) 1 (1 / 2)]"
  let ?rules = "[example_rule ''A'' ''B'' 1]"
  have a: "annotate_all example_frame (item_bestell_map example_rows) ?rs = Inr ?rules"
    by (simp add: annotate_all_def example_annotate)
  note t = rules_export_spec [of example_frame "item_bestell_map example_rows" ?rs,
      THEN spec, of ?rules, THEN mp, OF a]
  note c3 = conjunct2 [THEN conjunct2, THEN conjunct2]
  have e: "rules_export ?rules = Inr (map export_row ?rules)"
    by (rule t [THEN c3, THEN conjunct1])
  have l: "map (map fst) (map export_row ?rules) = replicate (length ?rs)
          [''antecedents'', ''consequents'', ''support'', ''confidence'', ''lift'', ''leverage'',
           ''conviction'', ''zhangs_metric'', ''combination_count'', ''Mat_combination'',
           ''Mat_combination_id'', ''different items'']"
    by (rule t [THEN c3, THEN conjunct2])
  have e': "rules_export ?rules = Inr [export_row (example_rule ''A'' ''B'' 1)]"
    using e by simp
  have l': "map fst (export_row (example_rule ''A'' ''B'' 1))
       = [''antecedents'', ''consequents'', ''support'', ''confidence'', ''lift'', ''leverage'',
          ''conviction'', ''zhangs_metric'', ''combination_count'', ''Mat_combination'',
          ''Mat_combination_id'', ''different items'']"
    using l by simp
  have v: "map snd (export_row (example_rule ''A'' ''B'' 1))
       = [Str ''A'', Str ''B'', Num (1 / 2), Num (1 / 2), Num 1, Num 0, Ext (Fin 1), Num 0,
          Cnt 1, Str ''M2-M7'', Str ''49323266'', Cnt 2]"
    by (simp add: export_row_def example_rule_def)
  from a e' l' v show ?thesis by (intro conjI)
qed

section \<open>Properties of the node sizes\<close>

lemma sum_list_if_filter:
  "sum_list (map (\<lambda>x. if P x then f x else (0::int)) xs) = sum_list (map f (filter P xs))"
  by (induction xs) auto

lemma set_graph_nodes:
  "set (graph_nodes rules) = antecedents ` set rules \<union> consequents ` set rules"
  by (auto simp: graph_nodes_def)

text \<open>
  C8, as the script tests membership. The graph has one node per distinct antecedent or
  consequent string. The test \<open>node in row['antecedents']\<close> compares two strings, so
  the aggregate of a node is the sum of \<open>combination_count\<close> over the rules whose
  antecedent string or consequent string contains the label as a contiguous part (the
  rules whose string is the label are among them).
\<close>

theorem node_sizes_substring:
  "node_sizes rules =
     map (\<lambda>node. (node, sum_list (map (\<lambda>row. int (combination_count row))
            (filter (\<lambda>row. sublist node (antecedents row) \<or> sublist node (consequents row)) rules))))
       (graph_nodes rules)
   \<and> distinct (graph_nodes rules)
   \<and> set (graph_nodes rules) = antecedents ` set rules \<union> consequents ` set rules"
proof -
  have "node_sizes rules =
     map (\<lambda>node. (node, sum_list (map (\<lambda>row. int (combination_count row))
            (filter (\<lambda>row. sublist node (antecedents row) \<or> sublist node (consequents row)) rules))))
       (graph_nodes rules)"
    by (simp add: node_sizes_def total_count_def sum_list_if_filter)
  moreover have "distinct (graph_nodes rules)" by (simp add: graph_nodes_def)
  ultimately show ?thesis using set_graph_nodes [of rules] by blast
qed

text \<open>
  Node \<open>A\<close> is the antecedent of the first rule only, with count 2; the script gives it
  size 3, since \<open>A\<close> is also a part of the antecedent \<open>A, C\<close> of the second rule.
\<close>

theorem node_sizes_counterexample:
  "node_sizes example_rules = [(''A'', 3), (''B'', 3), (''A, C'', 1)]
   \<and> label_sum example_rules ''A'' = 2"
  by (simp add: node_sizes_def total_count_def graph_nodes_def example_rules_def example_rule_def
      label_sum_def sublist_Cons_right)

section \<open>The lookup of trimmed item names\<close>

lemma codes_of_Nil_iff: "codes_of df item = [] \<longleftrightarrow> (\<forall>r \<in> set df. row_item r \<noteq> item)"
  by (auto simp: codes_of_def filter_empty_conv)

lemma item_bestell_map_None_iff:
  "item_bestell_map df item = None \<longleftrightarrow> (\<forall>r \<in> set df. row_item r \<noteq> item)"
  by (simp add: item_bestell_map_eq codes_of_Nil_iff)

lemma item_bestell_map_Some_D:
  assumes "item_bestell_map df item = Some c"
  shows "\<exists>r \<in> set df. row_item r = item \<and> row_code r = c"
proof -
  have ne: "codes_of df item \<noteq> []" and c: "c = last (drop_duplicates (codes_of df item))"
    using assms by (auto simp: item_bestell_map_eq split: if_splits)
  have "last (drop_duplicates (codes_of df item)) \<in> set (drop_duplicates (codes_of df item))"
    using ne by (intro last_in_set) simp
  then have "c \<in> set (codes_of df item)" using c by simp
  then show ?thesis by (auto simp: codes_of_def)
qed

lemma stripped_in_group:
  assumes "r \<in> set df" "row_id r = Some k" "row_item r = Text s"
  shows "strip s \<in> set (clean_items (group_items df k))"
proof -
  have "Text s \<in> set (group_items df k)"
    using assms by (force simp: group_items_def)
  then have "Text s \<in> set (filter notna (group_items df k))" by simp
  then have "strip (str_cell (Text s)) \<in> set (clean_items (group_items df k))"
    unfolding clean_items_def by (metis (no_types, lifting) image_eqI set_map)
  then show ?thesis by simp
qed

lemma stripped_in_transactions:
  assumes "r \<in> set df" "row_id r = Some k" "row_item r = Text s"
  shows "\<exists>ts. transactions df = Inr ts \<and> (\<exists>t \<in> set ts. strip s \<in> set t)"
proof -
  have k: "k \<in> set (group_keys df)" using assms by (auto simp: group_keys_set)
  then have "group_keys df \<noteq> []" by auto
  then have "transactions df = Inr (map (\<lambda>k. clean_items (group_items df k)) (group_keys df))"
    by (simp add: transactions_def grouped_def comp_def)
  moreover have "clean_items (group_items df k)
      \<in> set (map (\<lambda>k. clean_items (group_items df k)) (group_keys df))"
    using k by simp
  ultimately show ?thesis using stripped_in_group [OF assms] by blast
qed

lemma get_mat_combination_codes:
  "get_mat_combination m A C = join ''-'' (sorted_list_of_set (mapped_codes m (set A \<union> set C)))"
  by (simp add: get_mat_combination_def frozenset_union_def set_bestellnummern)

lemma mapped_codes_miss:
  "m (Text x) = None \<Longrightarrow> mapped_codes m (S - {x}) = mapped_codes m S"
  unfolding mapped_codes_def by (auto, metis option.distinct(1))

text \<open>
  C10, with the condition under which the lookup misses. For a row whose item name
  carries leading or trailing white space, the untrimmed name is a key of the map and the
  trimmed name is an item of a transaction. The lookup of the trimmed name misses exactly
  when no row carries the trimmed name as its raw item name; then the item adds nothing
  to \<open>Mat_combination\<close>. When the lookup succeeds, it gives the order number of a row
  whose raw item name is the trimmed name.
\<close>

theorem untrimmed_key_lookup:
  assumes "r \<in> set df" "row_id r = Some k" "row_item r = Text s" "strip s \<noteq> s"
  shows "item_bestell_map df (Text s) \<noteq> None
    \<and> (\<exists>ts. transactions df = Inr ts \<and> (\<exists>t \<in> set ts. strip s \<in> set t))
    \<and> (item_bestell_map df (Text (strip s)) = None
          \<longleftrightarrow> (\<forall>r' \<in> set df. row_item r' \<noteq> Text (strip s)))
    \<and> (item_bestell_map df (Text (strip s)) = None \<longrightarrow>
          (\<forall>A C. get_mat_combination (item_bestell_map df) A C
             = join ''-'' (sorted_list_of_set
                 (mapped_codes (item_bestell_map df) (set A \<union> set C - {strip s})))))
    \<and> (\<forall>c. item_bestell_map df (Text (strip s)) = Some c \<longrightarrow>
          (\<exists>r' \<in> set df. row_item r' = Text (strip s) \<and> row_code r' = c))"
proof -
  have 1: "item_bestell_map df (Text s) \<noteq> None"
    using assms(1,3) by (auto simp: item_bestell_map_None_iff)
  have 2: "\<exists>ts. transactions df = Inr ts \<and> (\<exists>t \<in> set ts. strip s \<in> set t)"
    using assms(1-3) by (rule stripped_in_transactions)
  have 3: "item_bestell_map df (Text (strip s)) = None
          \<longleftrightarrow> (\<forall>r' \<in> set df. row_item r' \<noteq> Text (strip s))"
    by (rule item_bestell_map_None_iff)
  have 4: "get_mat_combination (item_bestell_map df) A C
             = join ''-'' (sorted_list_of_set
                 (mapped_codes (item_bestell_map df) (set A \<union> set C - {strip s})))"
    if "item_bestell_map df (Text (strip s)) = None" for A C
    using that by (simp add: get_mat_combination_codes mapped_codes_miss)
  have 5: "\<exists>r' \<in> set df. row_item r' = Text (strip s) \<and> row_code r' = c"
    if "item_bestell_map df (Text (strip s)) = Some c" for c
    using that by (rule item_bestell_map_Some_D)
  from 1 2 3 4 5 show ?thesis by blast
qed

lemma strip_A_blank: "strip ''A '' = ''A''"
  by (simp add: strip_def is_space_def)

lemma example_mixed_map:
  "item_bestell_map example_mixed (Text ''A'') = Some (Text ''M1'')"
  "item_bestell_map example_mixed (Text ''B'') = Some (Text ''M7'')"
  by (simp_all add: item_bestell_map_eq codes_of_def example_mixed_def)

lemma example_untrimmed_map:
  "item_bestell_map example_untrimmed (Text ''A '') = Some (Text ''M1'')"
  "item_bestell_map example_untrimmed (Text ''A'') = None"
  "item_bestell_map example_untrimmed (Text ''B'') = Some (Text ''M7'')"
  by (simp_all add: item_bestell_map_eq codes_of_def example_untrimmed_def)

lemma sorted_codes_M1_M7: "sorted_list_of_set {''M1'', ''M7''} = [''M1'', ''M7'']"
proof -
  have "sorted_list_of_set (set [''M1'', ''M7'']) = [''M1'', ''M7'']"
    unfolding sorted_list_of_set_sort_remdups by (simp add: less_eq_char_def)
  then show ?thesis by simp
qed

text \<open>
  The first row has the name \<open>A\<close> with a trailing blank and the order number \<open>M1\<close>; a
  later row has the bare name. The lookup of the trimmed name succeeds, and \<open>M1\<close> is
  part of \<open>Mat_combination\<close>.
\<close>

theorem untrimmed_key_counterexample:
  "row_item (hd example_mixed) = Text ''A '' \<and> strip ''A '' = ''A'' \<and> strip ''A '' \<noteq> ''A ''
   \<and> row_code (hd example_mixed) = Text ''M1''
   \<and> item_bestell_map example_mixed (Text ''A'') = Some (Text ''M1'')
   \<and> get_mat_combination (item_bestell_map example_mixed) [''A''] [''B''] = ''M1-M7''"
proof -
  have "mapped_codes (item_bestell_map example_mixed) (set [''A''] \<union> set [''B'']) = {''M1'', ''M7''}"
    using set_bestellnummern [of "item_bestell_map example_mixed" "[''A'', ''B'']"]
    by (simp add: example_mixed_map insert_commute)
  then have "get_mat_combination (item_bestell_map example_mixed) [''A''] [''B''] = ''M1-M7''"
    by (simp only: get_mat_combination_codes sorted_codes_M1_M7) simp
  then show ?thesis
    by (simp add: example_mixed_map strip_A_blank) (simp add: example_mixed_def)
qed

theorem untrimmed_key_witness:
  "item_bestell_map example_untrimmed (Text ''A '') = Some (Text ''M1'')
   \<and> transactions example_untrimmed = Inr [[''A'', ''B'']]
   \<and> item_bestell_map example_untrimmed (Text ''A'') = None
   \<and> get_mat_combination (item_bestell_map example_untrimmed) [''A''] [''B''] = ''M7''"
proof -
  let ?r = "\<lparr>row_id = Some (1::nat), row_item = Text ''A '', row_code = Text ''M1''\<rparr>"
  have h: "?r \<in> set example_untrimmed" "row_id ?r = Some 1" "row_item ?r = Text ''A ''"
    "strip ''A '' \<noteq> ''A ''"
    by (simp_all add: example_untrimmed_def strip_A_blank)
  note t = untrimmed_key_lookup [OF h]
  have miss: "item_bestell_map example_untrimmed (Text ''A'') = None"
    by (rule example_untrimmed_map)
  have "get_mat_combination (item_bestell_map example_untrimmed) [''A''] [''B'']
      = join ''-'' (sorted_list_of_set
          (mapped_codes (item_bestell_map example_untrimmed) (set [''A''] \<union> set [''B''] - {''A''})))"
    using t miss by (simp add: strip_A_blank)
  also have "set [''A''] \<union> set [''B''] - {''A''} = set [''B'']" by auto
  also have "mapped_codes (item_bestell_map example_untrimmed) (set [''B'']) = {''M7''}"
    using set_bestellnummern [of "item_bestell_map example_untrimmed" "[''B'']"]
    by (simp add: example_untrimmed_map)
  finally have mat: "get_mat_combination (item_bestell_map example_untrimmed) [''A''] [''B''] = ''M7''"
    by simp
  have keys: "group_keys example_untrimmed = [1]"
    by (simp add: group_keys_def example_untrimmed_def List.map_filter_def)
  have tr: "transactions example_untrimmed = Inr [[''A'', ''B'']]"
    unfolding transactions_def grouped_def keys
    by (simp add: clean_items_def group_items_def example_untrimmed_def strip_A_blank strip_def
        is_space_def)
  show ?thesis using mat tr miss example_untrimmed_map(1) by simp
qed

section \<open>Correctness of the miner and of the rule generator\<close>

lemma length_filter_mono:
  "(\<And>x. x \<in> set xs \<Longrightarrow> P x \<Longrightarrow> Q x) \<Longrightarrow> length (filter P xs) \<le> length (filter Q xs)"
  by (induction xs) auto

lemma all_true_mono: "set I \<subseteq> set J \<Longrightarrow> all_true d J row \<Longrightarrow> all_true d I row"
  by (auto simp: all_true_def)

lemma support_count_mono: "set I \<subseteq> set J \<Longrightarrow> support_count d J \<le> support_count d I"
  unfolding support_count_def by (rule length_filter_mono) (rule all_true_mono)

lemma support_of_mono: "set I \<subseteq> set J \<Longrightarrow> support_of d J \<le> support_of d I"
  unfolding support_of_def
  by (intro divide_right_mono) (simp_all add: support_count_mono)

lemma frequent_mono: "set I \<subseteq> set J \<Longrightarrow> frequent d ms J \<Longrightarrow> frequent d ms I"
  unfolding frequent_def using support_of_mono [of I J d] by simp

lemma subseq_set_subset: "subseq xs ys \<Longrightarrow> set xs \<subseteq> set ys"
  by (auto dest: list_emb_set)

lemma subseq_sorted_wrt: "subseq xs ys \<Longrightarrow> sorted_wrt P ys \<Longrightarrow> sorted_wrt P xs"
  by (induction rule: list_emb.induct) (auto dest: list_emb_set)

lemma freq_lists_subseq:
  assumes "J \<in> freq_lists d ms k" "subseq I J"
  shows "I \<in> freq_lists d ms (length I)"
proof -
  have sub: "set I \<subseteq> set J" using assms(2) by (rule subseq_set_subset)
  have "sorted_wrt (<) I" using assms by (auto simp: freq_lists_def intro: subseq_sorted_wrt)
  moreover have "frequent d ms I"
    using assms(1) sub by (auto simp: freq_lists_def intro: frequent_mono)
  ultimately show ?thesis using assms(1) sub by (auto simp: freq_lists_def)
qed

lemma level_one_set: "set (level_one d ms) = freq_lists d ms 1"
proof -
  have "I \<in> freq_lists d ms 1 \<longleftrightarrow> (\<exists>c \<in> set (df_columns d). I = [c] \<and> frequent d ms [c])" for I
    by (cases I) (auto simp: freq_lists_def)
  then show ?thesis by (auto simp: level_one_def)
qed

lemma join_step_iff:
  "c \<in> set (join_step L) \<longleftrightarrow> (\<exists>a \<in> set L. \<exists>b \<in> set L. joinable a b \<and> c = a @ [last b])"
  by (auto simp: join_step_def)

lemma joinable_sorted:
  assumes "joinable a b" "sorted_wrt (<) a" "sorted_wrt (<) b"
  shows "sorted_wrt (<) (a @ [last b])"
proof -
  obtain p x where a: "a = p @ [x]" using assms(1) by (auto simp: joinable_def intro: rev_exhaust)
  obtain q y where b: "b = q @ [y]" using assms(1) by (auto simp: joinable_def intro: rev_exhaust)
  have "p = q" "x < y" using assms(1) a b by (simp_all add: joinable_def)
  then show ?thesis using assms(2,3) a b by (auto simp: sorted_wrt_append)
qed

lemma k_subsets_subseq: "s \<in> set (k_subsets c) \<Longrightarrow> subseq s c \<and> Suc (length s) = length c"
proof -
  assume "s \<in> set (k_subsets c)"
  then obtain i where i: "i < length c" and s: "s = take i c @ drop (Suc i) c"
    by (auto simp: k_subsets_def)
  have "subseq (take i c @ drop (Suc i) c) (take i c @ drop i c)"
    by (intro list_emb_append_mono subseq_order.order_refl)
       (metis Cons_nth_drop_Suc i list_emb_Cons subseq_order.order_refl)
  then show ?thesis using i s by auto
qed

lemma next_level_sound:
  assumes "set L = freq_lists d ms k"
  shows "set (next_level d ms L) \<subseteq> freq_lists d ms (Suc k)"
proof
  fix c assume "c \<in> set (next_level d ms L)"
  then have fr: "frequent d ms c" and "c \<in> set (join_step L)"
    by (auto simp: next_level_def prune_step_def)
  then obtain a b where ab: "a \<in> set L" "b \<in> set L" "joinable a b" "c = a @ [last b]"
    by (auto simp: join_step_iff)
  have a: "a \<in> freq_lists d ms k" and b: "b \<in> freq_lists d ms k" using ab assms by auto
  have "sorted_wrt (<) c"
    using ab(3,4) a b by (auto simp: freq_lists_def intro: joinable_sorted)
  moreover have "last b \<in> set b" using ab(3) by (simp add: joinable_def)
  then have "set c \<subseteq> set (df_columns d)" using a b ab(4) by (auto simp: freq_lists_def)
  moreover have "length c = Suc k" using a ab(4) by (simp add: freq_lists_def)
  ultimately show "c \<in> freq_lists d ms (Suc k)" using fr by (simp add: freq_lists_def)
qed

lemma next_level_complete:
  assumes "set L = freq_lists d ms k" "0 < k"
  shows "freq_lists d ms (Suc k) \<subseteq> set (next_level d ms L)"
proof
  fix c assume c: "c \<in> freq_lists d ms (Suc k)"
  then have len: "length c = Suc k" by (simp add: freq_lists_def)
  obtain p y where c1: "c = p @ [y]" using len by (cases c rule: rev_cases) auto
  obtain q x where p: "p = q @ [x]" using len c1 assms(2) by (cases p rule: rev_cases) auto
  let ?a = "q @ [x]" and ?b = "q @ [y]"
  have sub_a: "subseq ?a c" unfolding c1 p by (simp add: subseq_append')
  have sub_b: "subseq ?b c" unfolding c1 p by (simp add: subseq_append')
  have a: "?a \<in> set L" using freq_lists_subseq [OF c sub_a] len c1 p assms(1) by simp
  have b: "?b \<in> set L" using freq_lists_subseq [OF c sub_b] len c1 p assms(1) by simp
  have "x < y" using c by (simp add: freq_lists_def c1 p sorted_wrt_append)
  then have "joinable ?a ?b" by (simp add: joinable_def)
  then have joined: "c \<in> set (join_step L)"
    using a b unfolding join_step_iff c1 p by force
  have "s \<in> set L" if "s \<in> set (k_subsets c)" for s
  proof -
    have "subseq s c" "length s = k" using k_subsets_subseq [OF that] len by auto
    then show ?thesis using freq_lists_subseq [OF c, of s] assms(1) by simp
  qed
  moreover have "frequent d ms c" using c by (simp add: freq_lists_def)
  ultimately show "c \<in> set (next_level d ms L)"
    using joined by (simp add: next_level_def prune_step_def)
qed

lemma next_level_set:
  "set L = freq_lists d ms k \<Longrightarrow> 0 < k \<Longrightarrow> set (next_level d ms L) = freq_lists d ms (Suc k)"
  using next_level_sound next_level_complete by blast

lemma freq_lists_bound:
  assumes "I \<in> freq_lists d ms k"
  shows "k \<le> card (set (df_columns d))"
proof -
  have "distinct I" "set I \<subseteq> set (df_columns d)" "length I = k"
    using assms by (auto simp: freq_lists_def strict_sorted_iff)
  then have "k = card (set I)" by (simp add: distinct_card)
  also have "\<dots> \<le> card (set (df_columns d))"
    using \<open>set I \<subseteq> set (df_columns d)\<close> by (intro card_mono) simp_all
  finally show ?thesis .
qed

lemma freq_lists_empty_above:
  assumes "freq_lists d ms k = {}" "k \<le> j"
  shows "freq_lists d ms j = {}"
proof (rule ccontr)
  assume "freq_lists d ms j \<noteq> {}"
  then obtain I where I: "I \<in> freq_lists d ms j" by blast
  then have "length I = j" by (simp add: freq_lists_def)
  moreover have "subseq (take k I) I" by (simp add: prefix_imp_subseq take_is_prefix)
  ultimately have "take k I \<in> freq_lists d ms k"
    using freq_lists_subseq [OF I, of "take k I"] assms(2) by simp
  then show False using assms(1) by simp
qed

lemma apriori_levels_result:
  assumes "set L = freq_lists d ms k" "0 < k"
  shows "\<exists>R. apriori_levels d ms L = Some R \<and> set R = (\<Union>j \<in> {k..}. freq_lists d ms j)"
  using assms
proof (induction "Suc (card (set (df_columns d))) - k" arbitrary: k L rule: less_induct)
  case less
  show ?case
  proof (cases "L = []")
    case True
    then have "freq_lists d ms k = {}" using less.prems(1) by simp
    then have "(\<Union>j \<in> {k..}. freq_lists d ms j) = {}"
      using freq_lists_empty_above [of d ms k] by auto
    then show ?thesis using True by (subst apriori_levels.simps) simp
  next
    case False
    then obtain I where "I \<in> freq_lists d ms k" using less.prems(1) by (cases L) auto
    then have "k \<le> card (set (df_columns d))" by (rule freq_lists_bound)
    then have "Suc (card (set (df_columns d))) - Suc k < Suc (card (set (df_columns d))) - k"
      by simp
    moreover have "set (next_level d ms L) = freq_lists d ms (Suc k)"
      using less.prems by (rule next_level_set)
    ultimately obtain R where R: "apriori_levels d ms (next_level d ms L) = Some R"
      "set R = (\<Union>j \<in> {Suc k..}. freq_lists d ms j)"
      using less.hyps [of "Suc k" "next_level d ms L"] by auto
    have "{k..} = insert k {Suc k..}" by auto
    then have "(\<Union>j \<in> {k..}. freq_lists d ms j) = freq_lists d ms k \<union> set R"
      using R(2) by simp
    then show ?thesis using False R(1) less.prems(1)
      by (subst apriori_levels.simps) simp
  qed
qed

lemma apriori_levels_level_one:
  "\<exists>R. apriori_levels d ms (level_one d ms) = Some R
     \<and> set R = {I. I \<noteq> [] \<and> sorted_wrt (<) I \<and> set I \<subseteq> set (df_columns d) \<and> frequent d ms I}"
proof -
  obtain R where R: "apriori_levels d ms (level_one d ms) = Some R"
    "set R = (\<Union>j \<in> {1..}. freq_lists d ms j)"
    using apriori_levels_result [OF level_one_set, of d ms] by auto
  have "(\<Union>j \<in> {1..}. freq_lists d ms j)
      = {I. I \<noteq> [] \<and> sorted_wrt (<) I \<and> set I \<subseteq> set (df_columns d) \<and> frequent d ms I}"
    by (auto simp: freq_lists_def Suc_le_eq)
  then show ?thesis using R by simp
qed

lemma te_columns_set: "set (te_columns T) = \<Union> (set ` set T)"
  by (simp add: te_columns_def)

lemma te_columns_sorted: "sorted_wrt (<) (te_columns T)"
  by (simp add: te_columns_def)

lemma df_columns_encoded [simp]: "df_columns (df_transformed T) = te_columns T"
  by (simp add: df_transformed_def)

lemma df_rows_encoded: "df_rows (df_transformed T) = map (\<lambda>t. map (\<lambda>c. c \<in> set t) (te_columns T)) T"
  by (simp add: df_transformed_def te_transform_def)

lemma all_true_encoded:
  assumes "t \<in> set T"
  shows "all_true (df_transformed T) I (map (\<lambda>c. c \<in> set t) (te_columns T)) \<longleftrightarrow> set I \<subseteq> set t"
proof -
  have "set t \<subseteq> set (te_columns T)" using assms by (auto simp: te_columns_set)
  then show ?thesis
    by (auto simp: all_true_def col_value_def map_of_zip_map)
qed

lemma support_count_encoded:
  "support_count (df_transformed T) I = length (filter (\<lambda>t. set I \<subseteq> set t) T)"
proof -
  have "filter (all_true (df_transformed T) I) (map (\<lambda>t. map (\<lambda>c. c \<in> set t) (te_columns T)) T)
      = map (\<lambda>t. map (\<lambda>c. c \<in> set t) (te_columns T)) (filter (\<lambda>t. set I \<subseteq> set t) T)"
    unfolding filter_map comp_def
    by (intro arg_cong [where f = "map _"] filter_cong refl) (rule all_true_encoded)
  then show ?thesis
    by (simp add: support_count_def df_rows_encoded)
qed

lemma support_of_encoded: "support_of (df_transformed T) I = true_support T (set I)"
  by (simp add: support_of_def true_support_def support_count_encoded df_rows_encoded)

lemma true_support_pos_subset:
  assumes "0 < true_support T S"
  shows "\<exists>t \<in> set T. S \<subseteq> set t"
proof (rule ccontr)
  assume "\<not> (\<exists>t \<in> set T. S \<subseteq> set t)"
  then have "filter (\<lambda>t. S \<subseteq> set t) T = []" by (simp add: filter_empty_conv)
  then show False using assms by (simp add: true_support_def)
qed

lemma frequent_sets_encoded:
  "set ` {I. I \<noteq> [] \<and> sorted_wrt (<) I \<and> set I \<subseteq> set (df_columns (df_transformed T))
            \<and> frequent (df_transformed T) ms I}
     = {S. S \<noteq> {} \<and> S \<subseteq> \<Union> (set ` set T) \<and> ms \<le> true_support T S}" (is "?L = ?R")
proof
  show "?L \<subseteq> ?R"
    by (auto simp: frequent_def support_of_encoded te_columns_set)
  show "?R \<subseteq> ?L"
  proof
    fix S assume S: "S \<in> ?R"
    have "finite (\<Union> (set ` set T))" by simp
    then have fin: "finite S" using S by (auto intro: finite_subset)
    let ?I = "sorted_list_of_set S"
    have "set ?I = S" "sorted_wrt (<) ?I" using fin by simp_all
    moreover have "?I \<noteq> []" using S fin by auto
    ultimately have "?I \<in> {I. I \<noteq> [] \<and> sorted_wrt (<) I
        \<and> set I \<subseteq> set (df_columns (df_transformed T)) \<and> frequent (df_transformed T) ms I}"
      using S by (simp add: frequent_def support_of_encoded te_columns_set)
    then show "S \<in> ?L" using \<open>set ?I = S\<close> by (metis (no_types, lifting) image_eqI)
  qed
qed

lemma apriori_result:
  "\<exists>R. apriori (df_transformed T) ms = Some (map (\<lambda>I. (I, true_support T (set I))) R)
     \<and> set R = {I. I \<noteq> [] \<and> sorted_wrt (<) I \<and> set I \<subseteq> \<Union> (set ` set T)
                  \<and> ms \<le> true_support T (set I)}"
proof -
  obtain R where R: "apriori_levels (df_transformed T) ms (level_one (df_transformed T) ms) = Some R"
    "set R = {I. I \<noteq> [] \<and> sorted_wrt (<) I \<and> set I \<subseteq> set (df_columns (df_transformed T))
               \<and> frequent (df_transformed T) ms I}"
    using apriori_levels_level_one [of "df_transformed T" ms] by auto
  have "apriori (df_transformed T) ms = Some (map (\<lambda>I. (I, true_support T (set I))) R)"
    by (simp add: apriori_def R(1) support_of_encoded)
  moreover have "set R = {I. I \<noteq> [] \<and> sorted_wrt (<) I \<and> set I \<subseteq> \<Union> (set ` set T)
                  \<and> ms \<le> true_support T (set I)}"
    unfolding R(2) by (simp add: frequent_def support_of_encoded te_columns_set)
  ultimately show ?thesis by blast
qed

text \<open>
  C1 (the miner as the specification describes it). For every non-empty list of
  transactions and every threshold, the miner returns a table: the search over the levels
  ends. The itemsets of the table are exactly the non-empty sets of items of the
  transactions whose support, the fraction of the transactions that contain all items of
  the set, is at least the threshold; for a positive threshold these are all non-empty
  sets of items whatsoever with that support. Every itemset of the table carries its true
  support.
\<close>

theorem apriori_exact:
  assumes "T \<noteq> []"
  shows "\<exists>fi. apriori (df_transformed T) ms = Some fi
    \<and> set ` fst ` set fi = {S. S \<noteq> {} \<and> S \<subseteq> \<Union> (set ` set T) \<and> ms \<le> true_support T S}
    \<and> (0 < ms \<longrightarrow> set ` fst ` set fi = {S. S \<noteq> {} \<and> ms \<le> true_support T S})
    \<and> (\<forall>(I, s) \<in> set fi. s = true_support T (set I))"
proof -
  obtain R where R: "apriori (df_transformed T) ms = Some (map (\<lambda>I. (I, true_support T (set I))) R)"
    "set R = {I. I \<noteq> [] \<and> sorted_wrt (<) I \<and> set I \<subseteq> \<Union> (set ` set T)
                  \<and> ms \<le> true_support T (set I)}"
    using apriori_result [of T ms] by auto
  let ?fi = "map (\<lambda>I. (I, true_support T (set I))) R"
  have "fst ` set ?fi = set R" by (force simp: image_iff)
  then have 1: "set ` fst ` set ?fi
      = {S. S \<noteq> {} \<and> S \<subseteq> \<Union> (set ` set T) \<and> ms \<le> true_support T S}"
    using frequent_sets_encoded [of T ms] R(2)
    by (simp add: frequent_def support_of_encoded te_columns_set)
  have 2: "{S. S \<noteq> {} \<and> S \<subseteq> \<Union> (set ` set T) \<and> ms \<le> true_support T S}
      = {S. S \<noteq> {} \<and> ms \<le> true_support T S}" if "0 < ms"
  proof -
    have "S \<subseteq> \<Union> (set ` set T)" if "ms \<le> true_support T S" for S
    proof -
      have "0 < true_support T S" using that \<open>0 < ms\<close> by simp
      then show ?thesis using true_support_pos_subset [of T S] by auto
    qed
    then show ?thesis by blast
  qed
  have 3: "\<forall>(I, s) \<in> set ?fi. s = true_support T (set I)" by auto
  show ?thesis using R(1) 1 2 3 by (intro exI [of _ ?fi]) simp
qed

lemma true_support_mono: "S \<subseteq> S' \<Longrightarrow> true_support T S' \<le> true_support T S"
  unfolding true_support_def
  by (intro divide_right_mono of_nat_mono length_filter_mono) auto

lemma sequence_all_Inr:
  "(\<And>x. x \<in> set xs \<Longrightarrow> \<exists>v. x = Inr v \<and> P v)
     \<Longrightarrow> \<exists>vs. sequence xs = Inr vs \<and> (\<forall>v \<in> set vs. P v)"
proof (induction xs)
  case Nil
  then show ?case by simp
next
  case (Cons x xs)
  then obtain v where v: "x = Inr v" "P v" by auto
  obtain vs where vs: "sequence xs = Inr vs" "\<forall>v \<in> set vs. P v"
    using Cons by auto
  show ?case using v vs by auto
qed

lemma rule_of_ok:
  fixes T :: "('a::linorder) list list"
  assumes R: "set R = {I. I \<noteq> [] \<and> sorted_wrt (<) I \<and> set I \<subseteq> \<Union> (set ` set T)
                  \<and> ms \<le> true_support T (set I)}"
    and I: "I \<in> set R" and A: "A \<in> set (proper_subsets I)"
  shows "\<exists>r. rule_of (map (\<lambda>I. (I, true_support T (set I))) R) I (true_support T (set I)) A = Inr r
            \<and> rule_ok T ms r"
proof -
  let ?fi = "map (\<lambda>I. (I, true_support T (set I))) R"
  let ?C = "filter (\<lambda>x. x \<notin> set A) I"
  have look: "map_of ?fi J = (if J \<in> set R then Some (true_support T (set J)) else None)" for J
    by (simp add: map_of_map_restrict restrict_map_def)
  have sub: "subseq A I" and ne: "A \<noteq> []" and neq: "A \<noteq> I"
    using A by (simp_all add: proper_subsets_def)
  have I': "sorted_wrt (<) I" "set I \<subseteq> \<Union> (set ` set T)" "ms \<le> true_support T (set I)"
    using I R by auto
  have setA: "set A \<subseteq> set I" using sub by (rule subseq_set_subset)
  have sA: "sorted_wrt (<) A" using sub I'(1) by (rule subseq_sorted_wrt)
  have "ms \<le> true_support T (set A)"
    using I'(3) true_support_mono [OF setA, of T] by simp
  then have A_in: "A \<in> set R" using R ne sA setA I'(2) by auto
  have "?C \<noteq> []"
  proof
    assume "?C = []"
    then have "set I \<subseteq> set A" by (auto simp: filter_empty_conv)
    then have "set A = set I" using setA by auto
    then have "A = I"
      using sA I'(1) by (intro sorted_distinct_set_unique) (simp_all add: strict_sorted_iff)
    then show False using neq by simp
  qed
  moreover have "sorted_wrt (<) ?C" using I'(1) by (rule sorted_wrt_filter)
  moreover have "ms \<le> true_support T (set ?C)"
    using I'(3) true_support_mono [of "set ?C" "set I" T] by auto
  ultimately have C_in: "?C \<in> set R" using R I'(2) by auto
  have un: "set A \<union> set ?C = set I" using setA by auto
  have "rule_of ?fi I (true_support T (set I)) A
      = Inr (mk_rule A ?C (true_support T (set I)) (true_support T (set A)) (true_support T (set ?C)))"
    by (simp add: rule_of_def look A_in C_in)
  moreover have "rule_ok T ms
      (mk_rule A ?C (true_support T (set I)) (true_support T (set A)) (true_support T (set ?C)))"
    using ne \<open>?C \<noteq> []\<close> \<open>ms \<le> true_support T (set A)\<close> un
    by (auto simp: rule_ok_def mk_rule_def Let_def)
  ultimately show ?thesis by blast
qed

lemma candidate_rules_ok:
  fixes T :: "('a::linorder) list list"
  assumes R: "set R = {I. I \<noteq> [] \<and> sorted_wrt (<) I \<and> set I \<subseteq> \<Union> (set ` set T)
                  \<and> ms \<le> true_support T (set I)}"
    and x: "x \<in> set (candidate_rules (map (\<lambda>I. (I, true_support T (set I))) R))"
  shows "\<exists>r. x = Inr r \<and> rule_ok T ms r"
proof -
  let ?fi = "map (\<lambda>I. (I, true_support T (set I))) R"
  obtain I A where "I \<in> set R" "A \<in> set (proper_subsets I)"
    "x = rule_of ?fi I (true_support T (set I)) A"
    using x by (auto simp: candidate_rules_def split: if_splits)
  then show ?thesis using rule_of_ok [OF R, of I A] by auto
qed

lemma association_rules_ok:
  fixes T :: "('a::linorder) list list"
  assumes R: "set R = {I. I \<noteq> [] \<and> sorted_wrt (<) I \<and> set I \<subseteq> \<Union> (set ` set T)
                  \<and> ms \<le> true_support T (set I)}"
  shows "\<exists>rs. association_rules (map (\<lambda>I. (I, true_support T (set I))) R) mc = Inr rs
           \<and> (\<forall>r \<in> set rs. rule_ok T ms r \<and> mc \<le> confidence r)"
proof -
  let ?fi = "map (\<lambda>I. (I, true_support T (set I))) R"
  obtain vs where vs: "sequence (candidate_rules ?fi) = Inr vs" "\<forall>v \<in> set vs. rule_ok T ms v"
    using sequence_all_Inr [of "candidate_rules ?fi" "rule_ok T ms"] candidate_rules_ok [OF R]
    by blast
  then show ?thesis by (auto simp: association_rules_def)
qed

text \<open>
  C2 (the rule generator as the specification describes it). For every non-empty list of
  transactions and positive support threshold, rule generation on the mined table raises
  nothing, and every retained rule has an antecedent of positive support, a confidence
  equal to the support of antecedent and consequent together divided by the support of the
  antecedent, and a confidence of at least the confidence threshold.
\<close>

theorem association_rules_confidence:
  assumes "T \<noteq> []" "0 < ms"
  shows "\<exists>fi rs. apriori (df_transformed T) ms = Some fi
    \<and> association_rules fi mc = Inr rs
    \<and> (\<forall>r \<in> set rs.
          0 < true_support T (set (antecedents r))
        \<and> confidence r = true_support T (set (antecedents r) \<union> set (consequents r))
                           / true_support T (set (antecedents r))
        \<and> mc \<le> confidence r)"
proof -
  obtain R where R: "apriori (df_transformed T) ms = Some (map (\<lambda>I. (I, true_support T (set I))) R)"
    "set R = {I. I \<noteq> [] \<and> sorted_wrt (<) I \<and> set I \<subseteq> \<Union> (set ` set T)
                  \<and> ms \<le> true_support T (set I)}"
    using apriori_result [of T ms] by auto
  obtain rs where rs: "association_rules (map (\<lambda>I. (I, true_support T (set I))) R) mc = Inr rs"
    "\<forall>r \<in> set rs. rule_ok T ms r \<and> mc \<le> confidence r"
    using association_rules_ok [OF R(2), of mc] by auto
  have "0 < true_support T (set (antecedents r))
        \<and> confidence r = true_support T (set (antecedents r) \<union> set (consequents r))
                           / true_support T (set (antecedents r))
        \<and> mc \<le> confidence r" if "r \<in> set rs" for r
    using rs(2) that assms(2) by (auto simp: rule_ok_def)
  then show ?thesis using R(1) rs(1) by blast
qed

lemma example_columns: "te_columns example_transactions = [''A'', ''B'', ''C'']"
  unfolding te_columns_def example_transactions_def sorted_list_of_set_sort_remdups
  by (simp add: less_eq_char_def)

lemma example_supports:
  "true_support example_transactions {''A''} = 1"
  "true_support example_transactions {''B''} = 2 / 3"
  "true_support example_transactions {''C''} = 1 / 3"
  "true_support example_transactions {''A'', ''B''} = 2 / 3"
  "true_support example_transactions {''A'', ''C''} = 1 / 3"
  "true_support example_transactions {''B'', ''C''} = 0"
  by (simp_all add: true_support_def example_transactions_def)

lemma example_frequent:
  "frequent (df_transformed example_transactions) (3 / 10) [''A'']"
  "frequent (df_transformed example_transactions) (3 / 10) [''B'']"
  "frequent (df_transformed example_transactions) (3 / 10) [''C'']"
  "frequent (df_transformed example_transactions) (3 / 10) [''A'', ''B'']"
  "frequent (df_transformed example_transactions) (3 / 10) [''A'', ''C'']"
  "\<not> frequent (df_transformed example_transactions) (3 / 10) [''B'', ''C'']"
  by (simp_all add: frequent_def support_of_encoded example_supports)

lemma example_level_one:
  "level_one (df_transformed example_transactions) (3 / 10) = [[''A''], [''B''], [''C'']]"
  by (simp add: level_one_def example_columns example_frequent)

lemma example_join_one:
  "join_step [[''A''], [''B''], [''C'']] = [[''A'', ''B''], [''A'', ''C''], [''B'', ''C'']]"
  by (simp add: join_step_def joinable_def less_char_def)

lemma k_subsets_2: "k_subsets [a, b] = [[b], [a]]"
  by (simp add: k_subsets_def upt_conv_Cons)

lemma k_subsets_3: "k_subsets [a, b, c] = [[b, c], [a, c], [a, b]]"
  by (simp add: k_subsets_def upt_conv_Cons)

lemma example_level_two:
  "next_level (df_transformed example_transactions) (3 / 10) [[''A''], [''B''], [''C'']]
     = [[''A'', ''B''], [''A'', ''C'']]"
  by (simp add: next_level_def example_join_one prune_step_def k_subsets_2 example_frequent)

lemma example_join_two:
  "join_step [[''A'', ''B''], [''A'', ''C'']] = [[''A'', ''B'', ''C'']]"
  by (simp add: join_step_def joinable_def less_char_def)

lemma example_level_three:
  "next_level (df_transformed example_transactions) (3 / 10) [[''A'', ''B''], [''A'', ''C'']] = []"
  by (simp add: next_level_def example_join_two prune_step_def k_subsets_3)

lemma example_levels:
  "apriori_levels (df_transformed example_transactions) (3 / 10)
     (level_one (df_transformed example_transactions) (3 / 10))
   = Some [[''A''], [''B''], [''C''], [''A'', ''B''], [''A'', ''C'']]"
proof -
  let ?d = "df_transformed example_transactions"
  have 3: "apriori_levels ?d (3 / 10) [] = Some []"
    by (subst apriori_levels.simps) simp
  have 2: "apriori_levels ?d (3 / 10) [[''A'', ''B''], [''A'', ''C'']]
      = Some [[''A'', ''B''], [''A'', ''C'']]"
    by (subst apriori_levels.simps) (simp add: example_level_three 3)
  have 1: "apriori_levels ?d (3 / 10) [[''A''], [''B''], [''C'']]
      = Some [[''A''], [''B''], [''C''], [''A'', ''B''], [''A'', ''C'']]"
    by (subst apriori_levels.simps) (simp add: example_level_two 2)
  show ?thesis by (simp only: example_level_one 1)
qed

lemma example_apriori:
  "apriori (df_transformed example_transactions) (3 / 10)
   = Some [([''A''], 1), ([''B''], 2 / 3), ([''C''], 1 / 3),
           ([''A'', ''B''], 2 / 3), ([''A'', ''C''], 1 / 3)]"
  by (simp add: apriori_def example_levels support_of_encoded example_supports)

lemma proper_subsets_2: "a \<noteq> b \<Longrightarrow> proper_subsets [a, b] = [[a], [b]]"
  by (auto simp: proper_subsets_def Let_def)

lemma example_lookup:
  "map_of example_itemsets [''A''] = Some 1"
  "map_of example_itemsets [''B''] = Some (2 / 3)"
  "map_of example_itemsets [''C''] = Some (1 / 3)"
  by (simp_all add: example_itemsets_def)

lemma example_rule_of:
  "rule_of example_itemsets [''A'', ''B''] (2 / 3) [''A''] = Inr (example_mined_rules ! 0)"
  "rule_of example_itemsets [''A'', ''B''] (2 / 3) [''B''] = Inr (example_mined_rules ! 1)"
  "rule_of example_itemsets [''A'', ''C''] (1 / 3) [''A''] = Inr (example_mined_rules ! 2)"
  "rule_of example_itemsets [''A'', ''C''] (1 / 3) [''C''] = Inr (example_mined_rules ! 3)"
  by (simp_all add: rule_of_def example_lookup mk_rule_def zhang_def Let_def
      example_mined_rules_def)

lemma example_candidates:
  "candidate_rules example_itemsets = map Inr example_mined_rules"
proof -
  have "candidate_rules example_itemsets
      = [rule_of example_itemsets [''A'', ''B''] (2 / 3) [''A''],
         rule_of example_itemsets [''A'', ''B''] (2 / 3) [''B''],
         rule_of example_itemsets [''A'', ''C''] (1 / 3) [''A''],
         rule_of example_itemsets [''A'', ''C''] (1 / 3) [''C'']]"
  proof -
    have "concat (map (\<lambda>(items, sAC).
              if 2 \<le> length items then map (rule_of fi items sAC) (proper_subsets items) else [])
            [([''A''], 1), ([''B''], 2 / 3), ([''C''], 1 / 3),
             ([''A'', ''B''], 2 / 3), ([''A'', ''C''], 1 / 3)])
        = [rule_of fi [''A'', ''B''] (2 / 3) [''A''], rule_of fi [''A'', ''B''] (2 / 3) [''B''],
           rule_of fi [''A'', ''C''] (1 / 3) [''A''], rule_of fi [''A'', ''C''] (1 / 3) [''C'']]"
      for fi :: "(string list \<times> rat) list"
      by (simp add: proper_subsets_2)
    from this [of example_itemsets] show ?thesis
      unfolding candidate_rules_def by (simp add: example_itemsets_def [symmetric])
  qed
  then show ?thesis
    by (simp only: example_rule_of) (simp add: example_mined_rules_def)
qed

lemma example_association_rules:
  "association_rules example_itemsets (15 / 100) = Inr example_mined_rules"
proof -
  have "filter (\<lambda>r. 15 / 100 \<le> confidence r) example_mined_rules = example_mined_rules"
    by (simp add: example_mined_rules_def)
  then show ?thesis
    by (simp add: association_rules_def example_candidates sequence_map_Inr_id)
qed

lemma example_itemsets_sets:
  "set ` fst ` set example_itemsets = {{''A''}, {''B''}, {''C''}, {''A'', ''B''}, {''A'', ''C''}}"
  by (simp add: example_itemsets_def)

theorem apriori_exact_witness:
  "example_transactions \<noteq> []
   \<and> apriori (df_transformed example_transactions) (3 / 10) = Some example_itemsets
   \<and> {S. S \<noteq> {} \<and> 3 / 10 \<le> true_support example_transactions S}
       = {{''A''}, {''B''}, {''C''}, {''A'', ''B''}, {''A'', ''C''}}"
proof -
  have ne: "example_transactions \<noteq> []" by (simp add: example_transactions_def)
  have ev: "apriori (df_transformed example_transactions) (3 / 10) = Some example_itemsets"
    unfolding example_itemsets_def by (rule example_apriori)
  have pos: "0 < (3 / 10 :: rat)" by simp
  from apriori_exact [OF ne, of "3 / 10"] obtain fi where
    all: "apriori (df_transformed example_transactions) (3 / 10) = Some fi
      \<and> set ` fst ` set fi = {S. S \<noteq> {} \<and> S \<subseteq> \<Union> (set ` set example_transactions)
            \<and> 3 / 10 \<le> true_support example_transactions S}
      \<and> (0 < (3 / 10 :: rat) \<longrightarrow> set ` fst ` set fi
            = {S. S \<noteq> {} \<and> 3 / 10 \<le> true_support example_transactions S})
      \<and> (\<forall>(I, s) \<in> set fi. s = true_support example_transactions (set I))"
    by (rule exE)
  note fi = all [THEN conjunct1]
  note sets = all [THEN conjunct2, THEN conjunct2, THEN conjunct1, THEN mp, OF pos]
  have "Some fi = Some example_itemsets" using fi ev by (rule trans [OF sym])
  then have "fi = example_itemsets" by (rule option.inject [THEN iffD1])
  then have "set ` fst ` set example_itemsets
      = {S. S \<noteq> {} \<and> 3 / 10 \<le> true_support example_transactions S}"
    using sets by (rule subst)
  then have "{S. S \<noteq> {} \<and> 3 / 10 \<le> true_support example_transactions S}
      = {{''A''}, {''B''}, {''C''}, {''A'', ''B''}, {''A'', ''C''}}"
    using example_itemsets_sets by (rule trans [OF sym])
  with ne ev show ?thesis by (intro conjI)
qed

theorem association_rules_confidence_witness:
  "example_transactions \<noteq> [] \<and> 0 < (3 / 10 :: rat)
   \<and> apriori (df_transformed example_transactions) (3 / 10) = Some example_itemsets
   \<and> association_rules example_itemsets (15 / 100) = Inr example_mined_rules
   \<and> confidence (example_mined_rules ! 0)
       = true_support example_transactions {''A'', ''B''} / true_support example_transactions {''A''}
   \<and> confidence (example_mined_rules ! 0) = 2 / 3
   \<and> confidence (example_mined_rules ! 1)
       = true_support example_transactions {''A'', ''B''} / true_support example_transactions {''B''}
   \<and> confidence (example_mined_rules ! 1) = 1
   \<and> (\<exists>fi rs. apriori (df_transformed example_transactions) min_support = Some fi
         \<and> association_rules fi min_confidence = Inr rs)"
proof -
  have ne: "example_transactions \<noteq> []" by (simp add: example_transactions_def)
  have pos: "0 < (3 / 10 :: rat)" by simp
  have ev: "apriori (df_transformed example_transactions) (3 / 10) = Some example_itemsets"
    unfolding example_itemsets_def by (rule example_apriori)
  from association_rules_confidence [OF ne pos, of "15 / 100"] obtain fi rs where
    all: "apriori (df_transformed example_transactions) (3 / 10) = Some fi
      \<and> association_rules fi (15 / 100) = Inr rs
      \<and> (\<forall>r \<in> set rs.
            0 < true_support example_transactions (set (antecedents r))
          \<and> confidence r = true_support example_transactions (set (antecedents r) \<union> set (consequents r))
                             / true_support example_transactions (set (antecedents r))
          \<and> 15 / 100 \<le> confidence r)"
    by (elim exE)
  note fi = all [THEN conjunct1]
  note rs = all [THEN conjunct2, THEN conjunct1]
  note ok = all [THEN conjunct2, THEN conjunct2, THEN bspec, THEN conjunct2, THEN conjunct1]
  have "Some fi = Some example_itemsets" using fi ev by (rule trans [OF sym])
  then have "fi = example_itemsets" by (rule option.inject [THEN iffD1])
  then have "association_rules example_itemsets (15 / 100) = Inr rs" using rs by (rule subst)
  then have "Inr rs = (Inr example_mined_rules :: py_error + string list rule list)"
    using example_association_rules by (rule trans [OF sym])
  then have rs_eq: "rs = example_mined_rules" by (rule sum.inject(2) [THEN iffD1])
  have m0: "example_mined_rules ! 0 \<in> set rs" and m1: "example_mined_rules ! 1 \<in> set rs"
    unfolding rs_eq by (simp_all add: example_mined_rules_def)
  have a0: "antecedents (example_mined_rules ! 0) = [''A'']"
    "consequents (example_mined_rules ! 0) = [''B'']"
    and a1: "antecedents (example_mined_rules ! 1) = [''B'']"
    "consequents (example_mined_rules ! 1) = [''A'']"
    by (simp_all add: example_mined_rules_def)
  have s: "{''A''} \<union> {''B''} = {''A'', ''B''}" "{''B''} \<union> {''A''} = {''A'', ''B''}"
    "set [''A''] = {''A''}" "set [''B''] = {''B''}"
    by auto
  have c0: "confidence (example_mined_rules ! 0)
       = true_support example_transactions {''A'', ''B''} / true_support example_transactions {''A''}"
    using ok [OF m0] by (simp only: a0 s)
  have c1: "confidence (example_mined_rules ! 1)
       = true_support example_transactions {''A'', ''B''} / true_support example_transactions {''B''}"
    using ok [OF m1] by (simp only: a1 s)
  have v0: "confidence (example_mined_rules ! 0) = 2 / 3"
    and v1: "confidence (example_mined_rules ! 1) = 1"
    by (simp_all add: example_mined_rules_def)
  have "0 < min_support" by (simp add: min_support_def)
  from association_rules_confidence [OF ne this, of min_confidence]
  have script: "\<exists>fi rs. apriori (df_transformed example_transactions) min_support = Some fi
         \<and> association_rules fi min_confidence = Inr rs"
    by (elim exE conjE) (intro exI conjI)
  from ne pos ev example_association_rules c0 v0 c1 v1 script show ?thesis by (intro conjI)
qed

end
